theory Spec2Isabelle
  imports Complex_Main "HOL-Library.Word"
begin

unbundle bit_operations_syntax

section \<open>Machine types\<close>

text \<open>
  The patch is a 32-bit DLL (the callbacks address memory through \<open>ctx.eax\<close>): \<open>u32\<close> and
  pointers are 32-bit words, and an \<open>f32\<close> is the 32-bit pattern of an IEEE-754 single, so
  that the \<open>reinterpret_cast\<close>s of the source between \<open>u32*\<close> and \<open>f32*\<close> are the
  identity on the stored bits.
\<close>

type_synonym u8 = "8 word"
type_synonym u32 = "32 word"
type_synonym f32 = "32 word"

section \<open>Single-precision arithmetic\<close>

text \<open>
  The operations the source uses on \<open>f32\<close>: conversion from \<open>u32\<close>, multiplication,
  division and the truncating conversion back to \<open>u32\<close>. Each one computes the exact
  result on the decoded operands and rounds it once, to nearest with ties to even, as SSE
  scalar arithmetic does. A finite value is \<open>(-1)^sg * m * 2^e\<close>.
\<close>

datatype f32_class = Finite bool nat int | Infinite bool | NaN

definition f32_decode :: "f32 \<Rightarrow> f32_class" where
  "f32_decode x =
     (let n = unat x;
          sg = (2 ^ 31 \<le> n);
          ex = (n div 2 ^ 23) mod 256;
          fr = n mod 2 ^ 23
      in if ex = 255 then (if fr = 0 then Infinite sg else NaN)
         else if ex = 0 then Finite sg fr (- 149)
         else Finite sg (2 ^ 23 + fr) (int ex - 150))"

text \<open>Number of binary digits of a natural number.\<close>

fun bitlen :: "nat \<Rightarrow> nat" where
  "bitlen n = (if n = 0 then 0 else Suc (bitlen (n div 2)))"

declare bitlen.simps [simp del]

text \<open>\<open>ilog2_ratio p q\<close> is the integer \<open>e\<close> with \<open>2^e \<le> p / q < 2^(e+1)\<close>.\<close>

definition ilog2_ratio :: "nat \<Rightarrow> nat \<Rightarrow> int" where
  "ilog2_ratio p q =
     (let a = bitlen p; b = bitlen q
      in if q * 2 ^ a \<le> p * 2 ^ b then int a - int b else int a - int b - 1)"

text \<open>\<open>rne n d\<close> is the integer nearest to \<open>n / d\<close>, the even one in a tie.\<close>

definition rne :: "nat \<Rightarrow> nat \<Rightarrow> nat" where
  "rne n d =
     (let k = n div d; r = n mod d
      in if d < 2 * r \<or> (2 * r = d \<and> odd k) then k + 1 else k)"

definition f32_sign_bits :: "bool \<Rightarrow> nat" where
  "f32_sign_bits sg = (if sg then 2 ^ 31 else 0)"

text \<open>
  \<open>f32_round sg p q s\<close> encodes the single nearest to \<open>(-1)^sg * (p / q) * 2^s\<close>
  (\<open>q > 0\<close>). The quantum \<open>2^t\<close> is that of the binade of the exact value, or \<open>2^(-149)\<close> for
  subnormals; a significand that rounds up to \<open>2^24\<close> carries into the exponent field by the
  addition, and a result beyond the largest finite single is infinity.
\<close>

definition f32_round :: "bool \<Rightarrow> nat \<Rightarrow> nat \<Rightarrow> int \<Rightarrow> f32" where
  "f32_round sg p q s =
     (if p = 0 then of_nat (f32_sign_bits sg)
      else
        let e = ilog2_ratio p q + s;
            t = max (e - 23) (- 149);
            m = (if t \<le> s then rne (p * 2 ^ nat (s - t)) q
                 else rne p (q * 2 ^ nat (t - s)));
            b = nat (t + 149) * 2 ^ 23 + m
        in of_nat (f32_sign_bits sg + min b 0x7F800000))"

definition f32_inf :: "bool \<Rightarrow> f32" where
  "f32_inf sg = of_nat (f32_sign_bits sg + 0x7F800000)"

definition f32_zero :: "bool \<Rightarrow> f32" where
  "f32_zero sg = of_nat (f32_sign_bits sg)"

text \<open>The default quiet NaN of x86; NaN payloads are not tracked.\<close>

definition f32_qnan :: f32 where
  "f32_qnan = 0xFFC00000"

fun fmul :: "f32_class \<Rightarrow> f32_class \<Rightarrow> f32" where
  "fmul NaN _ = f32_qnan"
| "fmul _ NaN = f32_qnan"
| "fmul (Infinite s1) (Infinite s2) = f32_inf (s1 \<noteq> s2)"
| "fmul (Infinite s1) (Finite s2 m2 e2) =
     (if m2 = 0 then f32_qnan else f32_inf (s1 \<noteq> s2))"
| "fmul (Finite s1 m1 e1) (Infinite s2) =
     (if m1 = 0 then f32_qnan else f32_inf (s1 \<noteq> s2))"
| "fmul (Finite s1 m1 e1) (Finite s2 m2 e2) = f32_round (s1 \<noteq> s2) (m1 * m2) 1 (e1 + e2)"

fun fdiv :: "f32_class \<Rightarrow> f32_class \<Rightarrow> f32" where
  "fdiv NaN _ = f32_qnan"
| "fdiv _ NaN = f32_qnan"
| "fdiv (Infinite s1) (Infinite s2) = f32_qnan"
| "fdiv (Infinite s1) (Finite s2 m2 e2) = f32_inf (s1 \<noteq> s2)"
| "fdiv (Finite s1 m1 e1) (Infinite s2) = f32_zero (s1 \<noteq> s2)"
| "fdiv (Finite s1 m1 e1) (Finite s2 m2 e2) =
     (if m2 = 0 then (if m1 = 0 then f32_qnan else f32_inf (s1 \<noteq> s2))
      else f32_round (s1 \<noteq> s2) m1 m2 (e1 - e2))"

definition f32_mul :: "f32 \<Rightarrow> f32 \<Rightarrow> f32" where
  "f32_mul a b = fmul (f32_decode a) (f32_decode b)"

definition f32_div :: "f32 \<Rightarrow> f32 \<Rightarrow> f32" where
  "f32_div a b = fdiv (f32_decode a) (f32_decode b)"

text \<open>\<open>static_cast<f32>\<close> of a \<open>u32\<close>.\<close>

definition f32_of_u32 :: "u32 \<Rightarrow> f32" where
  "f32_of_u32 n = f32_round False (unat n) 1 0"

text \<open>
  The implicit conversion of an \<open>f32\<close> to \<open>u32\<close> truncates towards zero. Its behaviour is
  undefined when the truncated value does not fit (negative, \<open>2^32\<close> or more, infinite or
  NaN): \<open>None\<close>.
\<close>

definition f32_to_u32 :: "f32 \<Rightarrow> u32 option" where
  "f32_to_u32 x =
     (case f32_decode x of
        Finite sg m e \<Rightarrow>
          (let t = (if 0 \<le> e then m * 2 ^ nat e else m div 2 ^ nat (- e))
           in if t = 0 then Some 0
              else if sg \<or> 2 ^ 32 \<le> t then None
              else Some (of_nat t))
      | Infinite sg \<Rightarrow> None
      | NaN \<Rightarrow> None)"

text \<open>The real number that a finite \<open>f32\<close> stands for (\<open>0\<close> for an infinity or a NaN).\<close>

definition f32_value :: "f32 \<Rightarrow> real" where
  "f32_value x =
     (case f32_decode x of
        Finite sg m e \<Rightarrow> (if sg then - 1 else 1) * real m * 2 powi e
      | Infinite sg \<Rightarrow> 0
      | NaN \<Rightarrow> 0)"

text \<open>The literals \<open>16.0f\<close>, \<open>9.0f\<close>, \<open>2.0f\<close> and \<open>-1.0f\<close>.\<close>

definition lit_16f :: f32 where "lit_16f = 0x41800000"
definition lit_9f :: f32 where "lit_9f = 0x41100000"
definition lit_2f :: f32 where "lit_2f = 0x40000000"
definition lit_minus_1f :: f32 where "lit_minus_1f = 0xBF800000"

text \<open>
  The product \<open>x * -1.0f\<close>. Multiplying by \<open>-1\<close> is exact and changes the sign only: for
  every \<open>x\<close> that is not a NaN, \<open>f32_mul x lit_minus_1f\<close> is \<open>x\<close> with its sign bit flipped
  (lemma \<open>f32_mul_minus_1\<close>). IEEE-754 leaves the sign of a NaN result open; the product
  is compiled to the sign flip (GCC folds \<open>x * -1.0f\<close> to \<open>-x\<close>), so that a NaN keeps its
  payload and changes its sign.
\<close>

definition f32_neg :: "f32 \<Rightarrow> f32" where
  "f32_neg x = x XOR 0x80000000"

section \<open>Configuration and globals\<close>

record resolution_t =
  width :: u32
  height :: u32
  aspectRatio :: f32

record constrainHud_t =
  enable :: bool

record features_t =
  constrainHud :: constrainHud_t

record yml_t =
  name :: string
  masterEnable :: bool
  resolution :: resolution_t
  feature :: features_t

text \<open>
  The keys \<open>readYml\<close> reads from the YAML document \<open>GodEater1-2Fix.yml\<close>, already converted
  to their C++ types (loading and conversion failures belong to the YAML library).
\<close>

record config_doc =
  cfg_name :: string
  cfg_masterEnable :: bool
  cfg_width :: u32
  cfg_height :: u32
  cfg_constrainHud :: bool

text \<open>A \<open>LOG\<close> call: the format string and its arguments.\<close>

datatype log_arg = LStr string | LBool bool | LU32 u32 | LU64 "64 word" | LF32 f32

type_synonym log_line = "string \<times> log_arg list"

text \<open>
  \<open>Utils::ModuleInfo\<close>: the base address of the host executable and the size of its loaded
  image.
\<close>

record ModuleInfo =
  address :: u32
  imageSize :: nat

text \<open>The callbacks that the fixes pass to \<open>Utils::injectHook\<close>.\<close>

datatype callback = AspectRatioCallback | ResolutionCallback | HudElementsCallback

text \<open>
  The globals of \<open>dllmain.cpp\<close>, with the process state the fixes act on: the mid-function
  hooks installed so far (address and callback) and the lines written to the log.
  \<open>readFileHook\<close> holds the hooked address, \<open>None\<close> for the empty \<open>SafetyHookInline\<close>.
\<close>

record globals =
  module :: ModuleInfo
  config :: config_doc
  yml :: yml_t
  nativeWidth :: u32
  nativeOffset :: u32
  nativeAspectRatio :: f32
  widthScalingFactor :: f32
  readFileHook :: "u32 option"
  isMoviePlaying :: bool
  midHooks :: "(u32 \<times> callback) list"
  logLines :: "log_line list"

definition LOG :: "string \<Rightarrow> log_arg list \<Rightarrow> globals \<Rightarrow> globals" where
  "LOG fmt args g = g\<lparr>logLines := logLines g @ [(fmt, args)]\<rparr>"

section \<open>The process environment\<close>

text \<open>
  What the code asks of Windows, of safetyhook and of \<open>utils.hpp\<close>, as functions of an
  environment; \<open>'w\<close> is the state of the operating system that a read acts on.
  \<open>GetFinalPathNameByHandleA\<close> gives its return value and the C string that \<open>fileName\<close>
  holds after the call; \<open>ReadFile\<close> is the original primitive, reached through the
  trampoline of \<open>readFileHook\<close>; \<open>create_inline\<close> gives the hooked address, \<open>None\<close>
  when safetyhook could not place the hook; a null handle or pointer is \<open>0\<close>.
  \<open>moduleBytes\<close> is the loaded image of a module as the scanner reads it, and
  \<open>create_mid\<close> tells whether a mid-function hook could be placed at an address.
\<close>

record 'w winapi =
  getDesktopDimensions :: "int \<times> int"
  getModuleBanner :: "log_line list"
  GetFinalPathNameByHandleA :: "'w \<Rightarrow> u32 \<Rightarrow> u32 \<Rightarrow> u32 \<Rightarrow> u32 \<times> string"
  ReadFile :: "u32 \<Rightarrow> u32 \<Rightarrow> u32 \<Rightarrow> u32 \<Rightarrow> u32 \<Rightarrow> 'w \<Rightarrow> u32 \<times> 'w"
  GetModuleHandleA :: "string \<Rightarrow> u32"
  GetProcAddress :: "u32 \<Rightarrow> string \<Rightarrow> u32"
  create_inline :: "u32 \<Rightarrow> u32 option"
  moduleBytes :: "ModuleInfo \<Rightarrow> u8 list"
  create_mid :: "u32 \<Rightarrow> bool"

definition MAX_PATH :: u32 where "MAX_PATH = 260"
definition FILE_NAME_NORMALIZED :: u32 where "FILE_NAME_NORMALIZED = 0"

section \<open>logInit and readYml\<close>

text \<open>\<open>logInit\<close> sets up the log sink and writes the banner lines about the module.\<close>

definition logInit :: "'w winapi \<Rightarrow> globals \<Rightarrow> globals" where
  "logInit os g = g\<lparr>logLines := logLines g @ getModuleBanner os\<rparr>"

text \<open>
  \<open>readYml\<close> copies the configuration into \<open>yml\<close>, replaces a zero width or height by the
  desktop's dimensions, and computes the derived values in single precision, the two
  \<open>u32\<close> ones through the truncating conversion. The result is \<open>None\<close> when one of these
  conversions is undefined.
\<close>

definition readYml :: "'w winapi \<Rightarrow> globals \<Rightarrow> globals option" where
  "readYml os g =
     (let c = config g;
          (w, h) = (if cfg_width c = 0 \<or> cfg_height c = 0
                    then (word_of_int (fst (getDesktopDimensions os)),
                          word_of_int (snd (getDesktopDimensions os)))
                    else (cfg_width c, cfg_height c));
          ar = f32_div (f32_of_u32 w) (f32_of_u32 h)
      in case f32_to_u32 (f32_mul (f32_div lit_16f lit_9f) (f32_of_u32 h)) of
           None \<Rightarrow> None
         | Some nw \<Rightarrow>
            (case f32_to_u32 (f32_div (f32_of_u32 (w - nw)) lit_2f) of
               None \<Rightarrow> None
             | Some noff \<Rightarrow>
                (let wsf = f32_div (f32_of_u32 w) (f32_of_u32 nw);
                     g1 = g\<lparr>yml := \<lparr>name = cfg_name c,
                                   masterEnable = cfg_masterEnable c,
                                   resolution = \<lparr>width = w, height = h, aspectRatio = ar\<rparr>,
                                   feature = \<lparr>constrainHud = \<lparr>enable = cfg_constrainHud c\<rparr>\<rparr>\<rparr>,
                            nativeWidth := nw,
                            nativeOffset := noff,
                            widthScalingFactor := wsf\<rparr>
                 in Some ((LOG ''Width Scaling Factor: {}'' [LF32 wsf]
                        \<circ> LOG ''Normalized Offset: {}'' [LU32 noff]
                        \<circ> LOG ''Normalized Width: {}'' [LU32 nw]
                        \<circ> LOG ''Resolution.AspectRatio: {}'' [LF32 ar]
                        \<circ> LOG ''Resolution.Height: {}'' [LU32 h]
                        \<circ> LOG ''Resolution.Width: {}'' [LU32 w]
                        \<circ> LOG ''MasterEnable: {}'' [LBool (cfg_masterEnable c)]
                        \<circ> LOG ''Name: {}'' [LStr (cfg_name c)]) g1))))"

section \<open>The register context and memory\<close>

text \<open>
  \<open>SafetyHookContext\<close> on x86: the eight vector registers, each with its four \<open>f32\<close> lanes,
  and the general-purpose registers.
\<close>

record Xmm =
  f32_0 :: f32
  f32_1 :: f32
  f32_2 :: f32
  f32_3 :: f32

record SafetyHookContext =
  xmm0 :: Xmm
  xmm1 :: Xmm
  xmm2 :: Xmm
  xmm3 :: Xmm
  xmm4 :: Xmm
  xmm5 :: Xmm
  xmm6 :: Xmm
  xmm7 :: Xmm
  eflags :: u32
  edi :: u32
  esi :: u32
  edx :: u32
  ecx :: u32
  ebx :: u32
  eax :: u32
  ebp :: u32
  esp :: u32
  trampoline_esp :: u32
  eip :: u32

text \<open>
  The memory of the host process, byte by byte; a 32-bit access is little-endian, and an
  address wraps around at \<open>2^32\<close>. Every address is taken to be mapped.
\<close>

type_synonym memory = "u32 \<Rightarrow> u8"

definition read_u32 :: "memory \<Rightarrow> u32 \<Rightarrow> u32" where
  "read_u32 mem a =
     ucast (mem a) OR push_bit 8 (ucast (mem (a + 1)))
       OR push_bit 16 (ucast (mem (a + 2))) OR push_bit 24 (ucast (mem (a + 3)))"

definition write_u32 :: "memory \<Rightarrow> u32 \<Rightarrow> u32 \<Rightarrow> memory" where
  "write_u32 mem a v =
     mem(a := ucast v, a + 1 := ucast (drop_bit 8 v),
         a + 2 := ucast (drop_bit 16 v), a + 3 := ucast (drop_bit 24 v))"

section \<open>The hook callbacks\<close>

text \<open>The lambda of \<open>aspectRatioFix\<close>.\<close>

definition aspectRatioFix_callback :: "globals \<Rightarrow> SafetyHookContext \<Rightarrow> SafetyHookContext" where
  "aspectRatioFix_callback g ctx =
     ctx\<lparr>xmm0 := (xmm0 ctx)\<lparr>f32_0 := aspectRatio (resolution (yml g))\<rparr>\<rparr>"

text \<open>The lambda of \<open>resolutionFix\<close>.\<close>

definition resolutionFix_callback :: "globals \<Rightarrow> SafetyHookContext \<Rightarrow> SafetyHookContext" where
  "resolutionFix_callback g ctx =
     (if isMoviePlaying g = False
      then ctx\<lparr>xmm0 := (xmm0 ctx)\<lparr>f32_0 := f32_of_u32 (width (resolution (yml g)))\<rparr>\<rparr>
      else ctx)"

text \<open>The lambda of \<open>hudElementsFix\<close>; it reads \<open>ctx.eax\<close> and writes memory only.\<close>

definition hudElementsFix_callback :: "globals \<Rightarrow> SafetyHookContext \<Rightarrow> memory \<Rightarrow> memory" where
  "hudElementsFix_callback g ctx mem =
     (let scaler0 = read_u32 mem (eax ctx + 0x30);
          scaler1 = read_u32 mem (eax ctx + 0x3C)
      in if scaler0 AND 0xBF000000 = 0xBF000000 \<and> scaler1 AND 0x3F000000 = 0x3F000000
         then
           let ratio = f32_div (f32_of_u32 (nativeWidth g))
                               (f32_of_u32 (width (resolution (yml g))));
               mem1 = write_u32 mem (eax ctx + 0x00)
                        (f32_mul (f32_div lit_2f (f32_of_u32 (width (resolution (yml g))))) ratio);
               mem2 = write_u32 mem1 (eax ctx + 0x30) (f32_neg ratio)
           in mem2
         else mem)"

text \<open>What an installed mid-function hook does when the hooked instruction is reached.\<close>

fun run_callback ::
  "callback \<Rightarrow> globals \<Rightarrow> SafetyHookContext \<times> memory \<Rightarrow> SafetyHookContext \<times> memory" where
  "run_callback AspectRatioCallback g (ctx, mem) = (aspectRatioFix_callback g ctx, mem)"
| "run_callback ResolutionCallback g (ctx, mem) = (resolutionFix_callback g ctx, mem)"
| "run_callback HudElementsCallback g (ctx, mem) = (ctx, hudElementsFix_callback g ctx mem)"

section \<open>The ReadFile intercept\<close>

text \<open>
  \<open>std::filesystem::path::extension\<close>: the extension is the part of the filename from its
  last period on; it is empty when the filename has no period, when the filename is \<open>.\<close>
  or \<open>..\<close>, and when its only period is its first character. The filename is what follows
  the last directory separator, \<open>\\<close> or \<open>/\<close>. (Root names without a separator and
  alternate data streams are not modelled: in a path that \<open>GetFinalPathNameByHandleA\<close>
  returns, a separator precedes the filename.)
\<close>

definition backslash :: char where
  "backslash = CHR 0x5C"

definition is_separator :: "char \<Rightarrow> bool" where
  "is_separator c = (c = CHR ''/'' \<or> c = backslash)"

definition path_filename :: "string \<Rightarrow> string" where
  "path_filename p = rev (takeWhile (\<lambda>c. \<not> is_separator c) (rev p))"

definition path_extension :: "string \<Rightarrow> string" where
  "path_extension p =
     (let f = path_filename p;
          upto_dot = dropWhile (\<lambda>c. c \<noteq> CHR ''.'') (rev f)
      in if f = ''.'' \<or> f = ''..'' \<or> length upto_dot \<le> 1 then []
         else drop (length upto_dot - 1) f)"

text \<open>The prefix \<open>\\?\\<close> that the hook strips from the resolved path.\<close>

definition long_path_prefix :: string where
  "long_path_prefix = [backslash, backslash, CHR ''?'', backslash]"

text \<open>
  \<open>kernelBaseDllReadFileHook\<close>: the replacement for \<open>ReadFile\<close>. It acts on the globals
  and on the state of the operating system, and returns the \<open>BOOL\<close> of the call.
\<close>

definition kernelBaseDllReadFileHook ::
  "'w winapi \<Rightarrow> u32 \<Rightarrow> u32 \<Rightarrow> u32 \<Rightarrow> u32 \<Rightarrow> u32 \<Rightarrow> globals \<times> 'w \<Rightarrow> u32 \<times> globals \<times> 'w" where
  "kernelBaseDllReadFileHook os hFile lpBuffer nNumberOfBytesToRead lpNumberOfBytesRead
       lpOverlapped gw =
     (let (g, w) = gw;
          (ret, fileName) = GetFinalPathNameByHandleA os w hFile MAX_PATH FILE_NAME_NORMALIZED;
          g1 = (if ret \<noteq> 0
                then
                  let pathStr = (if take 4 fileName = long_path_prefix
                                 then drop 4 fileName else fileName);
                      extension = path_extension pathStr
                  in g\<lparr>isMoviePlaying := (if extension = ''.wmv'' then True else False)\<rparr>
                else g);
          (res, w1) = ReadFile os hFile lpBuffer nNumberOfBytesToRead lpNumberOfBytesRead
                        lpOverlapped w
      in (res, g1, w1))"

section \<open>The fixes and Main\<close>

text \<open>
  \<open>moviesFix\<close>: hooks \<open>ReadFile\<close> of \<open>KernelBase.dll\<close> when the master switch is on, and
  returns early, after a log line, when the module or the export is not found.
\<close>

definition moviesFix :: "'w winapi \<Rightarrow> globals \<Rightarrow> globals" where
  "moviesFix os g =
     (let enable = masterEnable (yml g)
      in if enable = True
         then
           let targetDll = ''KernelBase.dll'';
               kernelBaseAddr = GetModuleHandleA os targetDll
           in if kernelBaseAddr = 0
              then LOG ''Failed to get handle to {:s}'' [LStr targetDll] g
              else
                let dllFunction = ''ReadFile'';
                    readFileAddr = GetProcAddress os kernelBaseAddr dllFunction
                in if readFileAddr = 0
                   then LOG ''Failed to get address of {:s}'' [LStr dllFunction] g
                   else LOG ''Hooked {:s} @ {:s}+{:x}''
                          [LStr dllFunction, LStr targetDll,
                           LU64 (ucast readFileAddr - ucast kernelBaseAddr)]
                          (g\<lparr>readFileHook := create_inline os readFileAddr\<rparr>)
         else g)"

text \<open>
  \<open>Utils::SignatureHook\<close>: the signature, a sequence of pairs of a byte and a wildcard
  mark (\<open>??\<close> in the signature string of the source), and the byte offset added to the
  address of the match.
\<close>

type_synonym sig_byte = "u8 \<times> bool"

text \<open>
  Modelled from the spec: the optional explicit match length of a signature, the field
  \<open>matchLength\<close>. The class is declared in \<open>utils.hpp\<close>, which is not among the sources;
  no hook of \<open>dllmain.cpp\<close> gives a match length.
\<close>

record SignatureHook =
  signature :: "sig_byte list"
  offset :: int
  matchLength :: "nat option"

abbreviation B :: "u8 \<Rightarrow> sig_byte" where
  "B b \<equiv> (b, False)"

abbreviation wildcard :: sig_byte where
  "wildcard \<equiv> (0, True)"

text \<open>
  \<open>Utils::injectHook(enable, module, hook, callback)\<close> is a parameter of the three fixes
  that call it.
\<close>

type_synonym injector =
  "bool \<Rightarrow> ModuleInfo \<Rightarrow> SignatureHook \<Rightarrow> callback \<Rightarrow> globals \<Rightarrow> globals"

text \<open>Signature \<open>F3 0F 11 05 ?? ?? ?? ??    E8 ?? ?? ?? ??    89 EC\<close>.\<close>

definition aspectRatioFix :: "injector \<Rightarrow> globals \<Rightarrow> globals" where
  "aspectRatioFix inject g =
     (let hook = \<lparr>signature =
                   [B 0xF3, B 0x0F, B 0x11, B 0x05, wildcard, wildcard, wildcard, wildcard,
                    B 0xE8, wildcard, wildcard, wildcard, wildcard, B 0x89, B 0xEC],
                 offset = 0, matchLength = None\<rparr>;
          enable = masterEnable (yml g)
      in inject enable (module g) hook AspectRatioCallback g)"

text \<open>
  Signature \<open>76 ??    F3 0F 59 05 ?? ?? ?? ??    F3 0F 5E 05 ?? ?? ?? ??    E8 ?? ?? ?? ??\<close>,
  offset 18.
\<close>

definition resolutionFix :: "injector \<Rightarrow> globals \<Rightarrow> globals" where
  "resolutionFix inject g =
     (let hook = \<lparr>signature =
                   [B 0x76, wildcard,
                    B 0xF3, B 0x0F, B 0x59, B 0x05, wildcard, wildcard, wildcard, wildcard,
                    B 0xF3, B 0x0F, B 0x5E, B 0x05, wildcard, wildcard, wildcard, wildcard,
                    B 0xE8, wildcard, wildcard, wildcard, wildcard],
                 offset = 18, matchLength = None\<rparr>;
          enable = masterEnable (yml g)
      in inject enable (module g) hook ResolutionCallback g)"

text \<open>Signature \<open>F3 0F 6F 00    F3 0F 7F 41 0C    F3 0F 6F 40 10\<close>.\<close>

definition hudElementsFix :: "injector \<Rightarrow> globals \<Rightarrow> globals" where
  "hudElementsFix inject g =
     (let hook = \<lparr>signature =
                   [B 0xF3, B 0x0F, B 0x6F, B 0x00, B 0xF3, B 0x0F, B 0x7F, B 0x41, B 0x0C,
                    B 0xF3, B 0x0F, B 0x6F, B 0x40, B 0x10],
                 offset = 0, matchLength = None\<rparr>;
          enable = (masterEnable (yml g) \<and> enable (constrainHud (feature (yml g))))
      in inject enable (module g) hook HudElementsCallback g)"

text \<open>
  \<open>Main\<close>: the thread started at \<open>DLL_PROCESS_ATTACH\<close>. It returns \<open>true\<close>; the result is
  \<open>None\<close> when \<open>readYml\<close> has undefined behaviour.
\<close>

definition Main :: "'w winapi \<Rightarrow> injector \<Rightarrow> globals \<Rightarrow> (u32 \<times> globals) option" where
  "Main os inject g =
     (case readYml os (logInit os g) of
        None \<Rightarrow> None
      | Some g1 \<Rightarrow>
          Some (1, hudElementsFix inject (resolutionFix inject (aspectRatioFix inject (moviesFix os g1)))))"

section \<open>The pattern scanner and injectHook\<close>

text \<open>
  Modelled from the spec: \<open>utils.hpp\<close>, with the pattern scanner and
  \<open>Utils::injectHook\<close>, is not among the sources. The scanner walks the region byte by
  byte; at a candidate position every signature byte that is not a wildcard must equal the
  region's byte; the first position that matches is the result, moved by the signature's
  offset, and there is none when no position matches the whole pattern inside the region.
  The number of bytes that a match covers is the explicit match length of the signature
  when it has one, in place of the length of the pattern: these bytes must lie inside the
  region, and the pattern bytes compared are those among them.
\<close>

definition match_length :: "SignatureHook \<Rightarrow> nat" where
  "match_length hook =
     (case matchLength hook of None \<Rightarrow> length (signature hook) | Some n \<Rightarrow> n)"

fun matches_at :: "sig_byte list \<Rightarrow> u8 list \<Rightarrow> bool" where
  "matches_at [] bs = True"
| "matches_at (p # ps) [] = False"
| "matches_at ((b, wild) # ps) (x # xs) = ((wild \<or> b = x) \<and> matches_at ps xs)"

definition matches_window :: "sig_byte list \<Rightarrow> nat \<Rightarrow> u8 list \<Rightarrow> bool" where
  "matches_window ps n bs = (n \<le> length bs \<and> matches_at (take n ps) bs)"

fun scan_from :: "nat \<Rightarrow> sig_byte list \<Rightarrow> nat \<Rightarrow> u8 list \<Rightarrow> nat option" where
  "scan_from i ps n [] = None"
| "scan_from i ps n (x # xs) =
     (if matches_window ps n (x # xs) then Some i else scan_from (Suc i) ps n xs)"

definition scan :: "u8 list \<Rightarrow> SignatureHook \<Rightarrow> int option" where
  "scan region hook =
     (case scan_from 0 (signature hook) (match_length hook) region of
        None \<Rightarrow> None
      | Some i \<Rightarrow> Some (int i + offset hook))"

text \<open>
  Modelled from the spec: \<open>Utils::injectHook\<close>. A policy whose enable predicate is false
  or whose signature is not found is never installed, which a log line records; a hook
  that cannot be placed is logged and skipped; otherwise the callback is hooked at the
  address of the match.
\<close>

definition injectHook :: "'w winapi \<Rightarrow> injector" where
  "injectHook os enabled m hook cb g =
     (if \<not> enabled then LOG ''Fix disabled'' [] g
      else
        case scan (moduleBytes os m) hook of
          None \<Rightarrow> LOG ''Signature not found'' [] g
        | Some i \<Rightarrow>
            (let target = address m + word_of_int i
             in if create_mid os target
                then LOG ''Hooked @ {:x}'' [LU32 target]
                       (g\<lparr>midHooks := midHooks g @ [(target, cb)]\<rparr>)
                else LOG ''Failed to hook @ {:x}'' [LU32 target] g))"

section \<open>Initial state and sample inputs\<close>

text \<open>
  The globals when \<open>Main\<close> starts: \<open>module\<close> and \<open>config\<close> are set by their initialisers,
  \<open>yml\<close> is zero-initialised, and no hook is installed.
\<close>

definition initial_globals :: "ModuleInfo \<Rightarrow> config_doc \<Rightarrow> globals" where
  "initial_globals m c =
     \<lparr>module = m,
      config = c,
      yml = \<lparr>name = [], masterEnable = False,
             resolution = \<lparr>width = 0, height = 0, aspectRatio = 0\<rparr>,
             feature = \<lparr>constrainHud = \<lparr>enable = False\<rparr>\<rparr>\<rparr>,
      nativeWidth = 0,
      nativeOffset = 0,
      nativeAspectRatio = f32_div lit_16f lit_9f,
      widthScalingFactor = 0,
      readFileHook = None,
      isMoviePlaying = False,
      midHooks = [],
      logLines = []\<rparr>"

text \<open>Sample inputs: a configuration, a host module, an environment and a context.\<close>

definition sample_config :: "bool \<Rightarrow> u32 \<Rightarrow> u32 \<Rightarrow> config_doc" where
  "sample_config master w h =
     \<lparr>cfg_name = ''GodEater1-2Fix'', cfg_masterEnable = master,
      cfg_width = w, cfg_height = h, cfg_constrainHud = True\<rparr>"

definition sample_module :: ModuleInfo where
  "sample_module = \<lparr>address = 0x400000, imageSize = 52\<rparr>"

text \<open>
  A host image of 52 bytes that holds the three signatures one after the other, with \<open>0\<close>
  where a signature has a wildcard: at offsets 0, 15 and 38.
\<close>

definition sample_image :: "u8 list" where
  "sample_image =
     [0xF3, 0x0F, 0x11, 0x05, 0, 0, 0, 0, 0xE8, 0, 0, 0, 0, 0x89, 0xEC,
      0x76, 0, 0xF3, 0x0F, 0x59, 0x05, 0, 0, 0, 0, 0xF3, 0x0F, 0x5E, 0x05, 0, 0, 0, 0,
      0xE8, 0, 0, 0, 0,
      0xF3, 0x0F, 0x6F, 0x00, 0xF3, 0x0F, 0x7F, 0x41, 0x0C, 0xF3, 0x0F, 0x6F, 0x40, 0x10]"

text \<open>
  In the sample environment the handle \<open>1\<close> resolves to a movie, the handle \<open>2\<close> to a
  script archive, and no other handle resolves; \<open>kernelBase\<close> is the address at which
  \<open>KernelBase.dll\<close> is found (\<open>0\<close> when it is not loaded).
\<close>

definition movie_path :: string where
  "movie_path = long_path_prefix @ ''C:'' @ [backslash] @ ''GER'' @ [backslash] @ ''movie''
                  @ [backslash] @ ''intro.wmv''"

definition script_path :: string where
  "script_path = long_path_prefix @ ''C:'' @ [backslash] @ ''GER'' @ [backslash] @ ''data''
                  @ [backslash] @ ''script.qpck''"

definition sample_os :: "u32 \<Rightarrow> nat winapi" where
  "sample_os kernelBase =
     \<lparr>getDesktopDimensions = (1920, 1080),
      getModuleBanner = [],
      GetFinalPathNameByHandleA =
        (\<lambda>w hFile cch flags.
            if hFile = 1 then (of_nat (length movie_path), movie_path)
            else if hFile = 2 then (of_nat (length script_path), script_path)
            else (0, [])),
      ReadFile = (\<lambda>hFile lpBuffer n lpRead lpOverlapped w. (1, w + unat n)),
      GetModuleHandleA = (\<lambda>dll. if dll = ''KernelBase.dll'' then kernelBase else 0),
      GetProcAddress = (\<lambda>h fn. if fn = ''ReadFile'' then h + 0x1000 else 0),
      create_inline = (\<lambda>a. Some a),
      moduleBytes = (\<lambda>m. sample_image),
      create_mid = (\<lambda>a. True)\<rparr>"

text \<open>
  Globals as \<open>readYml\<close> leaves them for a width \<open>w\<close>, a height \<open>h\<close> and a native width
  \<open>nw\<close>, with the movie flag as given.
\<close>

definition sample_globals :: "u32 \<Rightarrow> u32 \<Rightarrow> u32 \<Rightarrow> bool \<Rightarrow> globals" where
  "sample_globals w h nw playing =
     (initial_globals sample_module (sample_config True w h))
       \<lparr>yml := \<lparr>name = ''GodEater1-2Fix'', masterEnable = True,
                 resolution = \<lparr>width = w, height = h,
                                aspectRatio = f32_div (f32_of_u32 w) (f32_of_u32 h)\<rparr>,
                 feature = \<lparr>constrainHud = \<lparr>enable = True\<rparr>\<rparr>\<rparr>,
        nativeWidth := nw,
        isMoviePlaying := playing\<rparr>"

text \<open>
  A memory that is zero except for the two fields that the HUD callback reads at
  \<open>a + 0x30\<close> and \<open>a + 0x3C\<close>.
\<close>

definition sample_mem :: "u32 \<Rightarrow> u32 \<Rightarrow> u32 \<Rightarrow> memory" where
  "sample_mem a s0 s1 = write_u32 (write_u32 (\<lambda>_. 0) (a + 0x30) s0) (a + 0x3C) s1"

definition sample_ctx :: "u32 \<Rightarrow> SafetyHookContext" where
  "sample_ctx a =
     (let z = \<lparr>f32_0 = 0, f32_1 = 0, f32_2 = 0, f32_3 = 0\<rparr>
      in \<lparr>xmm0 = z, xmm1 = z, xmm2 = z, xmm3 = z, xmm4 = z, xmm5 = z, xmm6 = z, xmm7 = z,
          eflags = 0, edi = 0, esi = 0, edx = 0, ecx = 0, ebx = 0, eax = a, ebp = 0, esp = 0,
          trampoline_esp = 0, eip = 0\<rparr>)"

section \<open>Evaluation and memory lemmas\<close>

lemma bitlen_0 [simp]: "bitlen 0 = 0"
  by (simp add: bitlen.simps)

lemma bitlen_pos: "0 < n \<Longrightarrow> bitlen n = Suc (bitlen (n div 2))"
  by (subst bitlen.simps) simp

lemma bitlen_numeral [simp]: "bitlen (numeral k) = Suc (bitlen (numeral k div 2))"
  by (rule bitlen_pos) simp

lemma bitlen_1 [simp]: "bitlen (Suc 0) = Suc 0"
  by (simp add: bitlen.simps)

lemmas f32_eval =
  f32_decode_def f32_round_def ilog2_ratio_def rne_def f32_sign_bits_def f32_mul_def f32_div_def
  f32_of_u32_def f32_to_u32_def f32_inf_def f32_zero_def f32_qnan_def
  lit_16f_def lit_9f_def lit_2f_def lit_minus_1f_def Let_def

lemma word_bytes_join:
  "ucast (ucast (v :: u32) :: u8) OR push_bit 8 (ucast (ucast (drop_bit 8 v) :: u8))
     OR push_bit 16 (ucast (ucast (drop_bit 16 v) :: u8))
     OR push_bit 24 (ucast (ucast (drop_bit 24 v) :: u8)) = v"
  apply (rule bit_word_eqI)
  apply (auto simp: bit_simps)
  subgoal for n
    by (cases "n < 8"; cases "n < 16"; cases "n < 24"; simp)
  done

lemma read_write_same: "read_u32 (write_u32 mem a v) a = v"
  by (simp add: read_u32_def write_u32_def word_bytes_join)

lemma read_write_0x30: "read_u32 (write_u32 mem (a + 0x30) v) a = read_u32 mem a"
  by (simp add: read_u32_def write_u32_def)

lemma read_write_0x3C_0x30:
  "read_u32 (write_u32 mem (a + 0x30) v) (a + 0x3C) = read_u32 mem (a + 0x3C)"
  by (simp add: read_u32_def write_u32_def)

lemma read_write_0x30_0x3C:
  "read_u32 (write_u32 mem (a + 0x3C) v) (a + 0x30) = read_u32 mem (a + 0x30)"
  by (simp add: read_u32_def write_u32_def)

lemma write_u32_other:
  "b \<notin> {a, a + 1, a + 2, a + 3} \<Longrightarrow> write_u32 mem a v b = mem b"
  by (simp add: write_u32_def)

lemma sample_mem_fields:
  "read_u32 (sample_mem a s0 s1) (a + 0x30) = s0"
  "read_u32 (sample_mem a s0 s1) (a + 0x3C) = s1"
  by (simp_all add: sample_mem_def read_write_same read_write_0x30_0x3C)

lemma sample_mem_base: "read_u32 (sample_mem a s0 s1) a = 0"
  by (simp add: sample_mem_def read_u32_def write_u32_def)

lemma hud_guard_fails:
  "\<not> (read_u32 mem (eax ctx + 0x30) AND 0xBF000000 = 0xBF000000
       \<and> read_u32 mem (eax ctx + 0x3C) AND 0x3F000000 = 0x3F000000)
   \<Longrightarrow> hudElementsFix_callback g ctx mem = mem"
  by (auto simp: hudElementsFix_callback_def Let_def)

lemma hud_guard_passes:
  assumes "read_u32 mem (eax ctx + 0x30) AND 0xBF000000 = 0xBF000000"
      and "read_u32 mem (eax ctx + 0x3C) AND 0x3F000000 = 0x3F000000"
  shows "hudElementsFix_callback g ctx mem =
           write_u32 (write_u32 mem (eax ctx)
              (f32_mul (f32_div lit_2f (f32_of_u32 (width (resolution (yml g)))))
                 (f32_div (f32_of_u32 (nativeWidth g)) (f32_of_u32 (width (resolution (yml g)))))))
             (eax ctx + 0x30)
             (f32_neg (f32_div (f32_of_u32 (nativeWidth g)) (f32_of_u32 (width (resolution (yml g))))))"
  using assms by (simp add: hudElementsFix_callback_def Let_def)

lemma hud_written_fields:
  assumes "read_u32 mem (eax ctx + 0x30) AND 0xBF000000 = 0xBF000000"
      and "read_u32 mem (eax ctx + 0x3C) AND 0x3F000000 = 0x3F000000"
  shows "read_u32 (hudElementsFix_callback g ctx mem) (eax ctx)
           = f32_mul (f32_div lit_2f (f32_of_u32 (width (resolution (yml g)))))
               (f32_div (f32_of_u32 (nativeWidth g)) (f32_of_u32 (width (resolution (yml g)))))"
    and "read_u32 (hudElementsFix_callback g ctx mem) (eax ctx + 0x30)
           = f32_neg (f32_div (f32_of_u32 (nativeWidth g)) (f32_of_u32 (width (resolution (yml g)))))"
  by (simp_all add: hud_guard_passes [OF assms] read_write_0x30 read_write_same)

lemma f32_of_u32_3440: "f32_of_u32 3440 = 0x45570000"
  by (simp add: f32_eval)

lemma f32_of_u32_1920: "f32_of_u32 1920 = 0x44F00000"
  by (simp add: f32_eval)

lemma ratio_7680: "f32_div (f32_of_u32 3840) (f32_of_u32 7680) = 0x3F000000"
  by (simp add: f32_eval)

lemma fieldA_7680: "f32_mul (f32_div lit_2f (f32_of_u32 7680)) 0x3F000000 = 0x39088889"
  by (simp add: f32_eval)

lemma fieldB_7680: "f32_neg 0x3F000000 = 0xBF000000"
  by (simp add: f32_neg_def)

lemma ratio_3440: "f32_div (f32_of_u32 2560) (f32_of_u32 3440) = 0x3F3E82FA"
  by (simp add: f32_eval)

lemma fieldA_3440: "f32_mul (f32_div lit_2f (f32_of_u32 3440)) 0x3F3E82FA = 0x39E2D77D"
  by (simp add: f32_eval)

lemma fieldB_3440: "f32_neg 0x3F3E82FA = 0xBF3E82FA"
  by (simp add: f32_neg_def)

lemma ratio_zero_widths:
  "f32_div (f32_of_u32 0) (f32_of_u32 0) = 0xFFC00000"
  "f32_neg 0xFFC00000 = 0x7FC00000"
  by (simp_all add: f32_eval f32_neg_def)

lemma sample_globals_fields:
  "width (resolution (yml (sample_globals w h nw playing))) = w"
  "nativeWidth (sample_globals w h nw playing) = nw"
  "isMoviePlaying (sample_globals w h nw playing) = playing"
  by (simp_all add: sample_globals_def)

lemma eax_sample_ctx: "eax (sample_ctx a) = a"
  by (simp add: sample_ctx_def Let_def)

section \<open>Rounding lemmas\<close>

lemma bitlen_bounds:
  "0 < n \<Longrightarrow> \<exists>k. bitlen n = Suc k \<and> 2 ^ k \<le> n \<and> n < 2 ^ Suc k"
proof (induction n rule: bitlen.induct)
  case (1 n)
  show ?case
  proof (cases "n div 2 = 0")
    case True
    with 1(2) have "n = 1" by presburger
    then show ?thesis by (intro exI [of _ 0]) simp
  next
    case False
    then have pos: "0 < n div 2" by simp
    with 1(1) 1(2) obtain k where k: "bitlen (n div 2) = Suc k" "2 ^ k \<le> n div 2"
      "n div 2 < 2 ^ Suc k" by auto
    have "bitlen n = Suc (Suc k)"
      using 1(2) k(1) by (simp add: bitlen_pos)
    moreover have "2 ^ Suc k \<le> n" using k(2) by simp
    moreover have "n < 2 ^ Suc (Suc k)" using k(3) by simp
    ultimately show ?thesis by blast
  qed
qed

lemma ilog2_ratio_spec:
  assumes p: "0 < p" and q: "0 < q"
  shows "2 powi (ilog2_ratio p q) \<le> real p / real q"
    and "real p / real q < 2 powi (ilog2_ratio p q + 1)"
proof -
  from bitlen_bounds [OF p] obtain ka where a: "bitlen p = Suc ka" "2 ^ ka \<le> p" "p < 2 ^ Suc ka"
    by blast
  from bitlen_bounds [OF q] obtain kb where b: "bitlen q = Suc kb" "2 ^ kb \<le> q" "q < 2 ^ Suc kb"
    by blast
  have rq: "0 < real q" using q by simp
  have pa: "(2::real) ^ ka \<le> real p" "real p < 2 ^ Suc ka"
    using a(2,3) by (metis of_nat_le_iff of_nat_numeral of_nat_power, metis of_nat_less_iff of_nat_numeral of_nat_power)
  have qb: "(2::real) ^ kb \<le> real q" "real q < 2 ^ Suc kb"
    using b(2,3) by (metis of_nat_le_iff of_nat_numeral of_nat_power, metis of_nat_less_iff of_nat_numeral of_nat_power)
  have pw: "\<And>i j. (2::real) powi (int i - int j) = 2 ^ i / 2 ^ j"
    by (simp add: power_int_diff)
  show "2 powi (ilog2_ratio p q) \<le> real p / real q"
  proof (cases "q * 2 ^ Suc ka \<le> p * 2 ^ Suc kb")
    case True
    then have e: "ilog2_ratio p q = int (Suc ka) - int (Suc kb)"
      by (simp add: ilog2_ratio_def a(1) b(1))
    from True have "real (q * 2 ^ Suc ka) \<le> real (p * 2 ^ Suc kb)"
      by (rule of_nat_mono)
    then have "real q * 2 ^ Suc ka \<le> real p * 2 ^ Suc kb" by simp
    then have "(2::real) ^ Suc ka / 2 ^ Suc kb \<le> real p / real q"
      using rq by (simp add: field_simps)
    then show ?thesis unfolding e pw .
  next
    case False
    then have e: "ilog2_ratio p q = int ka - int (Suc kb)"
      by (simp add: ilog2_ratio_def a(1) b(1))
    have "(2::real) ^ ka * real q \<le> real p * 2 ^ Suc kb"
      using pa(1) qb(2) by (smt (verit) mult_mono zero_le_power of_nat_0_le_iff)
    then have "(2::real) ^ ka / 2 ^ Suc kb \<le> real p / real q"
      using rq by (simp add: field_simps)
    then show ?thesis unfolding e pw .
  qed
  show "real p / real q < 2 powi (ilog2_ratio p q + 1)"
  proof (cases "q * 2 ^ Suc ka \<le> p * 2 ^ Suc kb")
    case True
    then have e: "ilog2_ratio p q + 1 = int (Suc (Suc ka)) - int (Suc kb)"
      by (simp add: ilog2_ratio_def a(1) b(1))
    have "real p * 2 ^ Suc kb < 2 ^ Suc (Suc ka) * real q"
    proof -
      have "real p * 2 ^ Suc kb < 2 ^ Suc ka * 2 ^ Suc kb"
        using pa(2) by simp
      also have "\<dots> = 2 ^ Suc (Suc ka) * 2 ^ kb" by simp
      also have "\<dots> \<le> 2 ^ Suc (Suc ka) * real q"
        using qb(1) by (intro mult_left_mono) simp_all
      finally show ?thesis .
    qed
    then have "real p / real q < 2 ^ Suc (Suc ka) / 2 ^ Suc kb"
      using rq by (simp add: field_simps)
    then show ?thesis unfolding e pw .
  next
    case False
    then have e: "ilog2_ratio p q + 1 = int (Suc ka) - int (Suc kb)"
      by (simp add: ilog2_ratio_def a(1) b(1))
    from False have "p * 2 ^ Suc kb < q * 2 ^ Suc ka" by simp
    then have "real (p * 2 ^ Suc kb) < real (q * 2 ^ Suc ka)"
      by (simp only: of_nat_less_iff)
    then have "real p * 2 ^ Suc kb < real q * 2 ^ Suc ka" by simp
    then have "real p / real q < 2 ^ Suc ka / 2 ^ Suc kb"
      using rq by (simp add: field_simps)
    then show ?thesis unfolding e pw .
  qed
qed


lemma rne_div:
  assumes "0 < d"
  shows "real n / real d = real (n div d) + real (n mod d) / real d"
proof -
  have "d * (n div d) + n mod d = n" by simp
  then have "real n = real (d * (n div d) + n mod d)" by (simp only:)
  also have "\<dots> = real d * real (n div d) + real (n mod d)"
    by (simp only: of_nat_add of_nat_mult)
  finally have "real n = real d * real (n div d) + real (n mod d)" .
  then have "real n / real d = (real d * real (n div d) + real (n mod d)) / real d"
    by (simp only:)
  also have "\<dots> = real (n div d) + real (n mod d) / real d"
    using assms by (simp add: add_divide_distrib)
  finally show ?thesis .
qed

lemma rne_lower:
  assumes d: "0 < d" and k: "real k \<le> real n / real d"
  shows "k \<le> rne n d"
proof -
  from k d have "real k * real d \<le> real n" by (simp add: field_simps)
  then have "k * d \<le> n" by (metis of_nat_le_iff of_nat_mult)
  then have "k \<le> n div d" using d by (simp add: less_eq_div_iff_mult_less_eq)
  then show ?thesis by (simp add: rne_def Let_def)
qed

lemma rne_upper:
  assumes d: "0 < d" and k: "real n / real d \<le> real k"
  shows "rne n d \<le> k"
proof -
  from k d have "real n \<le> real k * real d" by (simp add: field_simps)
  then have le: "n \<le> k * d" by (metis of_nat_le_iff of_nat_mult)
  show ?thesis
  proof (cases "n mod d = 0")
    case True
    then have "rne n d = n div d" using d by (simp add: rne_def Let_def)
    moreover have "n div d \<le> k"
    proof -
      have "n div d \<le> (k * d) div d" by (rule div_le_mono [OF le])
      also have "\<dots> = k" using d by simp
      finally show ?thesis .
    qed
    ultimately show ?thesis by simp
  next
    case False
    have "n div d < k"
    proof (rule ccontr)
      assume "\<not> n div d < k"
      then have "k \<le> n div d" by simp
      then have "k * d \<le> (n div d) * d" by simp
      also have "\<dots> \<le> n" by simp
      finally have "n = k * d" using le by simp
      then have "n mod d = 0" by simp
      with False show False by simp
    qed
    then show ?thesis by (simp add: rne_def Let_def)
  qed
qed

lemma rne_err:
  assumes d: "0 < d"
  shows "\<bar>real (rne n d) - real n / real d\<bar> \<le> 1 / 2"
proof -
  let ?k = "n div d" and ?r = "n mod d"
  have rd: "0 < real d" using d by simp
  have r: "?r < d" using d by simp
  show ?thesis
  proof (cases "d < 2 * ?r \<or> (2 * ?r = d \<and> odd ?k)")
    case True
    then have e: "rne n d = ?k + 1" by (simp add: rne_def Let_def)
    from True have "d \<le> 2 * ?r" by auto
    then have "real d \<le> 2 * real ?r" by (metis of_nat_le_iff of_nat_mult of_nat_numeral)
    then have "1 / 2 \<le> real ?r / real d" using rd by (simp add: field_simps)
    moreover have "real ?r / real d < 1" using r rd by simp
    moreover have "real (?k + 1) = real ?k + 1" by simp
    moreover note rne_div [OF d, of n]
    ultimately show ?thesis unfolding e by linarith
  next
    case False
    then have e: "rne n d = ?k" by (simp add: rne_def Let_def)
    from False have "2 * ?r \<le> d" by auto
    then have "2 * real ?r \<le> real d" by (metis of_nat_le_iff of_nat_mult of_nat_numeral)
    then have "real ?r / real d \<le> 1 / 2" using rd by (simp add: field_simps)
    moreover have "0 \<le> real ?r / real d" by simp
    moreover note rne_div [OF d, of n]
    ultimately show ?thesis unfolding e by linarith
  qed
qed

lemma div_mult_add_less: "f < c \<Longrightarrow> (k * c + f) div c = (k::nat)"
  by simp

lemma mod_mult_add_less: "f < c \<Longrightarrow> (k * c + f) mod c = (f::nat)"
  by simp

lemma decode_fields_all:
  assumes f: "f < 2 ^ 23" and ex: "ex < 256"
  shows "f32_decode (of_nat (f32_sign_bits sg + (ex * 2 ^ 23 + f)))
           = (if ex = 255 then (if f = 0 then Infinite sg else NaN)
              else if ex = 0 then Finite sg f (- 149) else Finite sg (2 ^ 23 + f) (int ex - 150))"
proof -
  let ?n = "f32_sign_bits sg + (ex * 2 ^ 23 + f)"
  have s: "f32_sign_bits sg = (if sg then 256 else 0) * 2 ^ 23"
    by (simp add: f32_sign_bits_def)
  have lt: "ex * 2 ^ 23 + f < 2 ^ 31"
  proof -
    have "ex * 2 ^ 23 + f < ex * 2 ^ 23 + 2 ^ 23" using f by simp
    also have "\<dots> = (ex + 1) * 2 ^ 23" by simp
    also have "\<dots> \<le> 256 * 2 ^ 23" using ex by (intro mult_right_mono) simp_all
    finally show ?thesis by simp
  qed
  have n32: "?n < 2 ^ 32" using lt by (simp add: f32_sign_bits_def)
  have u: "unat (of_nat ?n :: 32 word) = ?n"
    by (rule of_nat_inverse [OF refl]) (use n32 in simp)
  have sgn: "(2 ^ 31 \<le> ?n) = sg" using lt by (simp add: f32_sign_bits_def)
  have n: "?n = ((if sg then 256 else 0) + ex) * 2 ^ 23 + f"
    unfolding s by (simp add: algebra_simps)
  have dv: "?n div 2 ^ 23 = (if sg then 256 else 0) + ex"
    unfolding n by (rule div_mult_add_less [OF f])
  have md: "?n mod 2 ^ 23 = f"
    unfolding n by (rule mod_mult_add_less [OF f])
  have exm: "((if sg then 256 else 0) + ex) mod 256 = ex"
    using ex by simp
  show ?thesis
    unfolding f32_decode_def u Let_def sgn dv md exm by simp
qed

lemma decode_fields:
  assumes f: "f < 2 ^ 23" and ex: "ex < 255"
  shows "f32_decode (of_nat (f32_sign_bits sg + (ex * 2 ^ 23 + f)))
           = (if ex = 0 then Finite sg f (- 149) else Finite sg (2 ^ 23 + f) (int ex - 150))"
  using decode_fields_all [OF f, of ex sg] ex by simp

lemma two_powi_add: "(2::real) powi a * 2 powi b = 2 powi (a + b)"
  by (simp add: power_int_add)

lemma f32_round_normal:
  assumes p: "0 < p" and q: "0 < q"
      and lo: "- 126 \<le> ilog2_ratio p q + s" and hi: "ilog2_ratio p q + s \<le> 126"
  shows "\<exists>M. 2 ^ 23 \<le> M \<and> M \<le> 2 ^ 24
           \<and> \<bar>real M - real p / real q * 2 powi (23 - ilog2_ratio p q)\<bar> \<le> 1 / 2
           \<and> (\<forall>k. real k \<le> real p / real q * 2 powi (23 - ilog2_ratio p q) \<longrightarrow> k \<le> M)
           \<and> (\<forall>k. real p / real q * 2 powi (23 - ilog2_ratio p q) \<le> real k \<longrightarrow> M \<le> k)
           \<and> f32_decode (f32_round sg p q s)
               = (if M = 2 ^ 24 then Finite sg (2 ^ 23) (ilog2_ratio p q + s - 22)
                  else Finite sg M (ilog2_ratio p q + s - 23))"
proof -
  define L where "L = ilog2_ratio p q"
  define t where "t = L + s - 23"
  define y where "y = real p / real q * 2 powi (23 - L)"
  define N where "N = (if t \<le> s then p * 2 ^ nat (s - t) else p)"
  define D where "D = (if t \<le> s then q else q * 2 ^ nat (t - s))"
  define M where "M = rne N D"
  have D: "0 < D" using q by (simp add: D_def)
  have st: "s - t = 23 - L" by (simp add: t_def)
  have ND: "real N / real D = y"
  proof (cases "t \<le> s")
    case True
    then have "(2::real) powi (s - t) = 2 ^ nat (s - t)"
      by (simp add: power_int_nonneg_exp)
    then show ?thesis using True by (simp add: N_def D_def y_def st [symmetric])
  next
    case False
    then have "s - t = - int (nat (t - s))" by simp
    then have "(2::real) powi (s - t) = 1 / 2 ^ nat (t - s)"
      by (metis power_int_minus_divide power_int_of_nat)
    then show ?thesis using False by (simp add: N_def D_def y_def st [symmetric])
  qed
  from ilog2_ratio_spec [OF p q]
  have b1: "2 powi L \<le> real p / real q" and b2: "real p / real q < 2 powi (L + 1)"
    by (simp_all add: L_def)
  have pp: "(0::real) < 2 powi (23 - L)" by simp
  have y1: "2 ^ 23 \<le> y"
  proof -
    have "(2::real) powi L * 2 powi (23 - L) \<le> y"
      unfolding y_def using b1 pp by (intro mult_right_mono) simp_all
    moreover have "(2::real) powi L * 2 powi (23 - L) = 2 powi (L + (23 - L))"
      by (rule two_powi_add)
    moreover have "(2::real) powi (L + (23 - L)) = 2 ^ 23"
      by simp
    ultimately show ?thesis by simp
  qed
  have y2: "y < 2 ^ 24"
  proof -
    have "y < (2::real) powi (L + 1) * 2 powi (23 - L)"
      unfolding y_def using b2 pp by (intro mult_strict_right_mono) simp_all
    moreover have "(2::real) powi (L + 1) * 2 powi (23 - L) = 2 powi ((L + 1) + (23 - L))"
      by (rule two_powi_add)
    moreover have "(2::real) powi ((L + 1) + (23 - L)) = 2 ^ 24"
      by simp
    ultimately show ?thesis by simp
  qed
  have lowM: "\<And>k. real k \<le> y \<Longrightarrow> k \<le> M"
    unfolding M_def using rne_lower [OF D] ND by simp
  have uppM: "\<And>k. y \<le> real k \<Longrightarrow> M \<le> k"
    unfolding M_def using rne_upper [OF D] ND by simp
  have errM: "\<bar>real M - y\<bar> \<le> 1 / 2"
    unfolding M_def using rne_err [OF D, of N] ND by simp
  have M1: "2 ^ 23 \<le> M"
    using lowM [of "2 ^ 23"] y1 by simp
  have M2: "M \<le> 2 ^ 24"
    using uppM [of "2 ^ 24"] y2 by simp
  define E where "E = nat (t + 149)"
  have E: "int E = t + 149" "E \<le> 252"
    using lo hi by (simp_all add: E_def t_def L_def)
  have tmax: "max (L + s - 23) (- 149) = t"
    using lo by (simp add: t_def L_def)
  have rnd: "f32_round sg p q s = of_nat (f32_sign_bits sg + min (E * 2 ^ 23 + M) 0x7F800000)"
    using p unfolding f32_round_def Let_def L_def [symmetric] tmax
    by (simp add: M_def N_def D_def E_def)
  have dec: "f32_decode (f32_round sg p q s)
               = (if M = 2 ^ 24 then Finite sg (2 ^ 23) (t + 1) else Finite sg M t)"
  proof (cases "M = 2 ^ 24")
    case True
    have b: "E * 2 ^ 23 + M = (E + 2) * 2 ^ 23 + 0"
      unfolding True by simp
    have "(E + 2) * 2 ^ 23 + (0::nat) < 255 * 2 ^ 23"
      using E(2) by simp
    then have mn: "min ((E + 2) * 2 ^ 23 + 0) 0x7F800000 = (E + 2) * 2 ^ 23 + (0::nat)"
      by simp
    have "f32_decode (of_nat (f32_sign_bits sg + ((E + 2) * 2 ^ 23 + 0)))
            = Finite sg (2 ^ 23 + 0) (int (E + 2) - 150)"
      using decode_fields [of 0 "E + 2" sg] E(2) by simp
    then show ?thesis
      unfolding rnd b mn using True E(1) by simp
  next
    case False
    with M2 have lt: "M < 2 ^ 24" by simp
    define f where "f = M - 2 ^ 23"
    have f: "f < 2 ^ 23" "M = 2 ^ 23 + f"
      using M1 lt by (simp_all add: f_def)
    have b: "E * 2 ^ 23 + M = (E + 1) * 2 ^ 23 + f"
      unfolding f(2) by simp
    have "(E + 1) * 2 ^ 23 + f < (E + 1) * 2 ^ 23 + 2 ^ 23"
      using f(1) by simp
    also have "\<dots> \<le> 254 * 2 ^ 23" using E(2) by simp
    finally have "(E + 1) * 2 ^ 23 + f < 0x7F800000" by simp
    then have mn: "min ((E + 1) * 2 ^ 23 + f) 0x7F800000 = (E + 1) * 2 ^ 23 + f"
      by simp
    have "f32_decode (of_nat (f32_sign_bits sg + ((E + 1) * 2 ^ 23 + f)))
            = Finite sg (2 ^ 23 + f) (int (E + 1) - 150)"
      using decode_fields [OF f(1), of "E + 1" sg] E(2) by simp
    then show ?thesis
      unfolding rnd b mn using False f(2) E(1) by simp
  qed
  have dec': "f32_decode (f32_round sg p q s)
               = (if M = 2 ^ 24 then Finite sg (2 ^ 23) (L + s - 22)
                  else Finite sg M (L + s - 23))"
    using dec by (simp add: t_def)
  show ?thesis
    using M1 M2 errM lowM uppM dec'
    unfolding y_def L_def by blast
qed

lemma two_powi_less_cancel:
  assumes "(2::real) powi a \<le> x" and "x < 2 powi b"
  shows "a < b"
proof (rule ccontr)
  assume "\<not> a < b"
  then have "b \<le> a" by simp
  then have "(2::real) powi b \<le> 2 powi a"
    by (intro power_int_increasing) simp_all
  with assms show False by simp
qed

lemma f32_round_value:
  assumes p: "0 < p" and q: "0 < q"
      and lo: "2 powi (- 126) \<le> real p / real q * 2 powi s"
      and hi: "real p / real q * 2 powi s < 2 powi 127"
  shows "\<exists>e M m t. 2 powi e \<le> real p / real q * 2 powi s
            \<and> real p / real q * 2 powi s < 2 powi (e + 1)
            \<and> f32_decode (f32_round sg p q s) = Finite sg m t
            \<and> real m * 2 powi t = real M * 2 powi (e - 23)
            \<and> \<bar>real M - real p / real q * 2 powi s * 2 powi (23 - e)\<bar> \<le> 1 / 2
            \<and> (\<forall>k. real k \<le> real p / real q * 2 powi s * 2 powi (23 - e) \<longrightarrow> k \<le> M)
            \<and> (\<forall>k. real p / real q * 2 powi s * 2 powi (23 - e) \<le> real k \<longrightarrow> M \<le> k)"
proof -
  define L where "L = ilog2_ratio p q"
  define e where "e = L + s"
  define X where "X = real p / real q * 2 powi s"
  from ilog2_ratio_spec [OF p q]
  have b1: "2 powi L \<le> real p / real q" and b2: "real p / real q < 2 powi (L + 1)"
    by (simp_all add: L_def)
  have ps: "(0::real) < 2 powi s" by simp
  have e1: "2 powi e \<le> X"
  proof -
    have "(2::real) powi L * 2 powi s \<le> X"
      unfolding X_def using b1 ps by (intro mult_right_mono) simp_all
    then show ?thesis unfolding e_def two_powi_add .
  qed
  have e2: "X < 2 powi (e + 1)"
  proof -
    have "X < (2::real) powi (L + 1) * 2 powi s"
      unfolding X_def using b2 ps by (intro mult_strict_right_mono) simp_all
    also have "\<dots> = 2 powi (L + 1 + s)" by (rule two_powi_add)
    also have "L + 1 + s = e + 1" by (simp add: e_def)
    finally show ?thesis .
  qed
  have "e < 127"
    using two_powi_less_cancel [OF e1] hi by (simp add: X_def)
  moreover have "- 126 < e + 1"
    using two_powi_less_cancel [OF _ e2] lo by (simp add: X_def)
  ultimately have rng: "- 126 \<le> L + s" "L + s \<le> 126"
    by (simp_all add: e_def)
  have yy: "real p / real q * 2 powi (23 - L) = X * 2 powi (23 - e)"
  proof -
    have "X * 2 powi (23 - e) = real p / real q * (2 powi s * 2 powi (23 - e))"
      by (simp add: X_def)
    also have "2 powi s * 2 powi (23 - e) = (2::real) powi (s + (23 - e))"
      by (rule two_powi_add)
    also have "s + (23 - e) = 23 - L" by (simp add: e_def)
    finally show ?thesis by simp
  qed
  from f32_round_normal [OF p q rng [unfolded L_def], of sg]
  obtain M where M: "2 ^ 23 \<le> M" "M \<le> 2 ^ 24"
    "\<bar>real M - X * 2 powi (23 - e)\<bar> \<le> 1 / 2"
    "\<forall>k. real k \<le> X * 2 powi (23 - e) \<longrightarrow> k \<le> M"
    "\<forall>k. X * 2 powi (23 - e) \<le> real k \<longrightarrow> M \<le> k"
    "f32_decode (f32_round sg p q s)
       = (if M = 2 ^ 24 then Finite sg (2 ^ 23) (e - 22) else Finite sg M (e - 23))"
    unfolding L_def [symmetric] yy e_def [symmetric] by blast
  define m where "m = (if M = 2 ^ 24 then 2 ^ 23 else M)"
  define t where "t = (if M = 2 ^ 24 then e - 22 else e - 23)"
  have d: "f32_decode (f32_round sg p q s) = Finite sg m t"
    using M(6) by (simp add: m_def t_def)
  have v: "real m * 2 powi t = real M * 2 powi (e - 23)"
  proof (cases "M = 2 ^ 24")
    case True
    have "(2::real) powi (e - 22) = 2 powi (1 + (e - 23))" by simp
    also have "\<dots> = 2 powi 1 * 2 powi (e - 23)" by (rule two_powi_add [symmetric])
    finally show ?thesis using True by (simp add: m_def t_def)
  next
    case False
    then show ?thesis by (simp add: m_def t_def)
  qed
  show ?thesis
    using e1 e2 d v M(3,4,5) unfolding X_def by blast
qed

lemma f32_to_u32_finite:
  assumes d: "f32_decode x = Finite False m e"
      and lt: "real m * 2 powi e < 2 ^ 32"
  shows "f32_to_u32 x = Some (of_nat (nat \<lfloor>real m * 2 powi e\<rfloor>))"
proof -
  define T where "T = (if 0 \<le> e then m * 2 ^ nat e else m div 2 ^ nat (- e))"
  have fl: "\<lfloor>real m * 2 powi e\<rfloor> = int T"
  proof (cases "0 \<le> e")
    case True
    then have "real m * 2 powi e = real (m * 2 ^ nat e)"
      by (simp add: power_int_nonneg_exp)
    then show ?thesis using True by (simp only: floor_of_nat T_def if_True)
  next
    case False
    then have "e = - int (nat (- e))" by simp
    then have "(2::real) powi e = 1 / 2 ^ nat (- e)"
      by (metis power_int_minus_divide power_int_of_nat)
    then have "real m * 2 powi e = real m / real (2 ^ nat (- e))"
      by simp
    then show ?thesis using False by (simp only: floor_divide_of_nat_eq T_def if_False)
  qed
  have "real_of_int \<lfloor>real m * 2 powi e\<rfloor> \<le> real m * 2 powi e" by simp
  with lt have "real_of_int (int T) < 2 ^ 32" unfolding fl by linarith
  then have T: "T < 2 ^ 32" by (metis of_int_of_nat_eq of_nat_less_iff of_nat_numeral of_nat_power)
  have "f32_to_u32 x = Some (of_nat T)"
    using T by (auto simp: f32_to_u32_def d Let_def T_def)
  then show ?thesis by (simp add: fl)
qed

lemma f32_round_binade:
  assumes p: "0 < p" and q: "0 < q"
      and e1: "2 powi e \<le> real p / real q * 2 powi s"
      and e2: "real p / real q * 2 powi s < 2 powi (e + 1)"
      and lo: "- 126 \<le> e" and hi: "e \<le> 126"
  shows "\<exists>M m t. f32_decode (f32_round sg p q s) = Finite sg m t
            \<and> real m * 2 powi t = real M * 2 powi (e - 23)
            \<and> \<bar>real M - real p / real q * 2 powi s * 2 powi (23 - e)\<bar> \<le> 1 / 2
            \<and> (\<forall>k. real k \<le> real p / real q * 2 powi s * 2 powi (23 - e) \<longrightarrow> k \<le> M)
            \<and> (\<forall>k. real p / real q * 2 powi s * 2 powi (23 - e) \<le> real k \<longrightarrow> M \<le> k)"
proof -
  let ?X = "real p / real q * 2 powi s"
  have "(2::real) powi (- 126) \<le> 2 powi e"
    using lo by (intro power_int_increasing) simp_all
  with e1 have a: "2 powi (- 126) \<le> ?X" by linarith
  have "(2::real) powi (e + 1) \<le> 2 powi 127"
    using hi by (intro power_int_increasing) simp_all
  with e2 have b: "?X < 2 powi 127" by linarith
  from f32_round_value [OF p q a b, of sg]
  obtain e' M m t where r: "2 powi e' \<le> ?X" "?X < 2 powi (e' + 1)"
    "f32_decode (f32_round sg p q s) = Finite sg m t"
    "real m * 2 powi t = real M * 2 powi (e' - 23)"
    "\<bar>real M - ?X * 2 powi (23 - e')\<bar> \<le> 1 / 2"
    "\<forall>k. real k \<le> ?X * 2 powi (23 - e') \<longrightarrow> k \<le> M"
    "\<forall>k. ?X * 2 powi (23 - e') \<le> real k \<longrightarrow> M \<le> k"
    by blast
  have "e < e' + 1" by (rule two_powi_less_cancel [OF e1 r(2)])
  moreover have "e' < e + 1" by (rule two_powi_less_cancel [OF r(1) e2])
  ultimately have "e' = e" by simp
  with r show ?thesis by blast
qed

lemma f32_round_exact:
  assumes p: "0 < p" and q: "0 < q"
      and e1: "2 powi e \<le> real p / real q * 2 powi s"
      and e2: "real p / real q * 2 powi s < 2 powi (e + 1)"
      and lo: "- 126 \<le> e" and hi: "e \<le> 126"
      and K: "real p / real q * 2 powi s * 2 powi (23 - e) = real K"
  shows "\<exists>m t. f32_decode (f32_round sg p q s) = Finite sg m t
            \<and> real m * 2 powi t = real p / real q * 2 powi s"
proof -
  let ?X = "real p / real q * 2 powi s"
  from f32_round_binade [OF p q e1 e2 lo hi, of sg]
  obtain M m t where r: "f32_decode (f32_round sg p q s) = Finite sg m t"
    "real m * 2 powi t = real M * 2 powi (e - 23)"
    "\<forall>k. real k \<le> ?X * 2 powi (23 - e) \<longrightarrow> k \<le> M"
    "\<forall>k. ?X * 2 powi (23 - e) \<le> real k \<longrightarrow> M \<le> k"
    by blast
  from r(3,4) K have "K \<le> M" "M \<le> K" by simp_all
  then have "M = K" by simp
  then have "real m * 2 powi t = ?X * 2 powi (23 - e) * 2 powi (e - 23)"
    using r(2) K by simp
  also have "\<dots> = ?X * (2 powi (23 - e) * 2 powi (e - 23))" by simp
  also have "2 powi (23 - e) * 2 powi (e - 23) = (2::real) powi (23 - e + (e - 23))"
    by (rule two_powi_add)
  finally have "real m * 2 powi t = ?X" by simp
  with r(1) show ?thesis by blast
qed

lemma binade_exists:
  assumes "0 < n"
  shows "\<exists>e. 0 \<le> e \<and> 2 powi e \<le> real n \<and> real n < 2 powi (e + 1)"
proof -
  from bitlen_bounds [OF assms] obtain k where k: "2 ^ k \<le> n" "n < 2 ^ Suc k" by blast
  have "(2::real) ^ k \<le> real n"
    using k(1) by (metis of_nat_le_iff of_nat_numeral of_nat_power)
  moreover have "real n < 2 ^ Suc k"
    using k(2) by (metis of_nat_less_iff of_nat_numeral of_nat_power)
  moreover have "(2::real) powi (int k + 1) = 2 ^ Suc k"
    by (metis of_nat_Suc power_int_of_nat add.commute of_nat_1 of_nat_add)
  ultimately show ?thesis
    by (intro exI [of _ "int k"]) simp
qed

lemma f32_of_u32_exact:
  assumes pos: "0 < unat h" and lt: "unat h < 2 ^ 24"
  shows "\<exists>m t. f32_decode (f32_of_u32 h) = Finite False m t
            \<and> real m * 2 powi t = real (unat h)"
proof -
  let ?n = "unat h"
  from binade_exists [OF pos] obtain e where e: "0 \<le> e" "2 powi e \<le> real ?n"
    "real ?n < 2 powi (e + 1)" by blast
  have "real ?n < 2 ^ 24"
    using lt by (metis of_nat_less_iff of_nat_numeral of_nat_power)
  then have "real ?n < 2 powi 24" by simp
  from two_powi_less_cancel [OF e(2) this] have e24: "e < 24" .
  have X: "real ?n / real 1 * 2 powi 0 = real ?n" by simp
  have "(2::real) powi (23 - e) = 2 ^ nat (23 - e)"
    using e24 by (simp add: power_int_nonneg_exp)
  then have K: "real ?n / real 1 * 2 powi 0 * 2 powi (23 - e) = real (?n * 2 ^ nat (23 - e))"
    by simp
  from f32_round_exact [of ?n 1 e 0 "?n * 2 ^ nat (23 - e)" False, unfolded X, OF pos _ e(2,3) _ _ K [unfolded X]]
    e(1) e24
  show ?thesis unfolding f32_of_u32_def by simp
qed

lemma sixteen_ninths_decode:
  "f32_decode (f32_div lit_16f lit_9f) = Finite False 14913081 (- 23)"
proof -
  have "f32_div lit_16f lit_9f = 0x3FE38E39"
    by (simp add: f32_eval)
  then show ?thesis
    by (simp add: f32_decode_def)
qed

lemma scale_back:
  "x * 2 powi (23 - e) * 2 powi (e - 23) = (x::real)"
proof -
  have "x * 2 powi (23 - e) * 2 powi (e - 23) = x * (2 powi (23 - e) * 2 powi (e - 23))"
    by simp
  also have "2 powi (23 - e) * 2 powi (e - 23) = (2::real) powi (23 - e + (e - 23))"
    by (rule two_powi_add)
  finally show ?thesis by simp
qed

lemma nativeWidth_truncates:
  assumes pos: "0 < unat h" and lt: "unat h < 2 ^ 19"
  shows "f32_to_u32 (f32_mul (f32_div lit_16f lit_9f) (f32_of_u32 h))
           = Some (of_nat (16 * unat h div 9))"
proof -
  define n where "n = unat h"
  define n0 where "n0 = 16 * n div 9"
  define X where "X = 14913081 * real n / 8388608"
  have "1 \<le> n" using pos by (simp add: n_def)
  then have "real 1 \<le> real n" by (simp only: of_nat_le_iff)
  then have n1: "1 \<le> real n" by simp
  have "n < 524288" using lt by (simp add: n_def)
  then have n2: "real n < 524288" by simp
  have "unat h < 2 ^ 24" using lt by simp
  from f32_of_u32_exact [OF pos this] obtain m t
    where d: "f32_decode (f32_of_u32 h) = Finite False m t"
      and v: "real m * 2 powi t = real n" by (auto simp: n_def)
  have m: "0 < m" using v n1 by (cases "m = 0") simp_all
  have mul: "f32_mul (f32_div lit_16f lit_9f) (f32_of_u32 h)
               = f32_round False (14913081 * m) 1 (- 23 + t)"
    by (simp add: f32_mul_def sixteen_ninths_decode d)
  have Xeq: "real (14913081 * m) / real 1 * 2 powi (- 23 + t) = X"
  proof -
    have "(2::real) powi (- 23 + t) = 2 powi (- 23) * 2 powi t"
      by (rule two_powi_add [symmetric])
    then have "real (14913081 * m) / real 1 * 2 powi (- 23 + t)
                 = 14913081 * (real m * 2 powi t) * 2 powi (- 23)"
      by simp
    also have "\<dots> = X" unfolding v X_def by simp
    finally show ?thesis .
  qed
  have X1: "1 \<le> X" and X2: "X < 1048576"
    using n1 n2 by (simp_all add: X_def)
  have lo: "2 powi (- 126) \<le> X"
  proof -
    have "(2::real) powi (- 126) \<le> 2 powi 0"
      by (intro power_int_increasing) simp_all
    with X1 show ?thesis by simp
  qed
  have hi: "X < 2 powi 127"
  proof -
    have "(2::real) powi 20 \<le> 2 powi 127"
      by (intro power_int_increasing) simp_all
    with X2 show ?thesis by simp
  qed
  have pm: "0 < 14913081 * m" using m by simp
  from f32_round_value [of "14913081 * m" 1 "- 23 + t" False, unfolded Xeq, OF pm _ lo hi]
  obtain e M m2 t2 where r: "2 powi e \<le> X" "X < 2 powi (e + 1)"
    "f32_decode (f32_round False (14913081 * m) 1 (- 23 + t)) = Finite False m2 t2"
    "real m2 * 2 powi t2 = real M * 2 powi (e - 23)"
    "\<bar>real M - X * 2 powi (23 - e)\<bar> \<le> 1 / 2"
    "\<forall>k. real k \<le> X * 2 powi (23 - e) \<longrightarrow> k \<le> M"
    by auto
  define V where "V = real m2 * 2 powi t2"
  have "X < 2 powi 20" using X2 by simp
  from two_powi_less_cancel [OF r(1) this] have e20: "e < 20" .
  have "2 powi 0 \<le> X" using X1 by simp
  from two_powi_less_cancel [OF this r(2)] have e0: "0 \<le> e" by simp
  have pe: "(0::real) < 2 powi (e - 23)" by simp
  have "9 * n0 \<le> 16 * n" by (simp add: n0_def)
  then have "real (9 * n0) \<le> real (16 * n)" by (simp only: of_nat_le_iff)
  then have a: "9 * real n0 \<le> 16 * real n" by simp
  have "16 * n < 9 * (n0 + 1)" unfolding n0_def by presburger
  then have "real (16 * n) < real (9 * (n0 + 1))" by (simp only: of_nat_less_iff)
  then have b: "16 * real n < 9 * (real n0 + 1)" by simp
  have b': "16 * real n + 1 \<le> 9 * real n0 + 9"
  proof -
    from \<open>16 * n < 9 * (n0 + 1)\<close> have "16 * n + 1 \<le> 9 * (n0 + 1)" by simp
    then have "real (16 * n + 1) \<le> real (9 * (n0 + 1))" by (simp only: of_nat_le_iff)
    then show ?thesis by simp
  qed
  have low: "real n0 \<le> V"
  proof -
    have "(2::real) powi (23 - e) = 2 ^ nat (23 - e)"
      using e20 by (simp add: power_int_nonneg_exp)
    then have k: "real (n0 * 2 ^ nat (23 - e)) = real n0 * 2 powi (23 - e)"
      by simp
    have "real n0 \<le> X" using a n1 by (simp add: X_def)
    then have "real n0 * 2 powi (23 - e) \<le> X * 2 powi (23 - e)"
      by (intro mult_right_mono) simp_all
    then have "real (n0 * 2 ^ nat (23 - e)) \<le> X * 2 powi (23 - e)"
      unfolding k .
    with r(6) have "n0 * 2 ^ nat (23 - e) \<le> M" by blast
    then have "real (n0 * 2 ^ nat (23 - e)) \<le> real M" by (simp only: of_nat_le_iff)
    then have "real n0 * 2 powi (23 - e) * 2 powi (e - 23) \<le> real M * 2 powi (e - 23)"
      unfolding k using pe by (intro mult_right_mono) simp_all
    then show ?thesis unfolding scale_back V_def r(4) .
  qed
  have upp: "V < real n0 + 1"
  proof -
    from r(5) have "real M \<le> X * 2 powi (23 - e) + 1 / 2" by linarith
    then have "real M * 2 powi (e - 23) \<le> (X * 2 powi (23 - e) + 1 / 2) * 2 powi (e - 23)"
      using pe by (intro mult_right_mono) simp_all
    also have "\<dots> = X + 2 powi (e - 23) / 2"
      by (simp add: distrib_right scale_back)
    finally have "V \<le> X + 2 powi (e - 23) / 2" unfolding V_def r(4) .
    moreover have "(2::real) powi (e - 23) = 2 powi e * 2 powi (- 23)"
      using two_powi_add [of e "- 23"] by simp
    then have "(2::real) powi (e - 23) \<le> X / 8388608"
      using r(1) by simp
    ultimately have "V \<le> X + X / 16777216" by linarith
    moreover have "X + X / 16777216 < real n0 + 1"
    proof -
      define c where "c = real n / 8388608"
      define a where "a = X / 16777216"
      have "9 * X = 16 * real n + c"
        by (simp add: X_def c_def)
      moreover have "c < 1 / 16"
        using n2 by (simp add: c_def)
      moreover have "a < 1 / 16"
        using X2 by (simp add: a_def)
      ultimately have "X + a < real n0 + 1" using b' by linarith
      then show ?thesis by (simp add: a_def)
    qed
    ultimately show ?thesis by linarith
  qed
  have fl: "\<lfloor>V\<rfloor> = int n0"
    using low upp by (intro floor_unique) simp_all
  have "real n0 < 2 ^ 32" using a n2 by simp
  with upp have "V < 2 ^ 32"
  proof -
    have "real n0 + 1 \<le> 2 ^ 32" using a n2 by simp
    with upp show ?thesis by linarith
  qed
  from f32_to_u32_finite [OF r(3) this [unfolded V_def]]
  show ?thesis
    unfolding mul n0_def [symmetric] n_def [symmetric] using fl by (simp add: V_def)
qed

lemma lit_2f_decode: "f32_decode lit_2f = Finite False 8388608 (- 22)"
  by (simp add: f32_decode_def lit_2f_def)

lemma nativeOffset_halves:
  assumes lt: "unat d < 2 ^ 24"
  shows "f32_to_u32 (f32_div (f32_of_u32 d) lit_2f) = Some (of_nat (unat d div 2))"
proof (cases "unat d = 0")
  case True
  then have z: "f32_of_u32 d = 0"
    by (simp add: f32_of_u32_def f32_round_def f32_sign_bits_def)
  have "f32_decode 0 = Finite False 0 (- 149)"
    by (simp add: f32_decode_def)
  then have "f32_div 0 lit_2f = 0"
    by (simp add: f32_div_def lit_2f_decode f32_round_def f32_sign_bits_def)
  then show ?thesis
    using True by (simp add: z f32_to_u32_def f32_decode_def)
next
  case False
  define n where "n = unat d"
  from False have pos: "0 < unat d" by simp
  from f32_of_u32_exact [OF pos lt] obtain m t
    where dm: "f32_decode (f32_of_u32 d) = Finite False m t"
      and v: "real m * 2 powi t = real n" by (auto simp: n_def)
  have "0 < n" using pos by (simp add: n_def)
  then have n0: "0 < real n" by simp
  have m: "0 < m" using v n0 by (cases "m = 0") simp_all
  have dv: "f32_div (f32_of_u32 d) lit_2f = f32_round False m 8388608 (t + 22)"
    by (simp add: f32_div_def dm lit_2f_decode)
  have X: "real m / real 8388608 * 2 powi (t + 22) = real n / 2"
  proof -
    have "(2::real) powi (t + 22) = 2 powi t * 2 powi 22"
      by (rule two_powi_add [symmetric])
    then have "real m / real 8388608 * 2 powi (t + 22) = (real m * 2 powi t) * (2 powi 22 / 8388608)"
      by simp
    also have "\<dots> = real n / 2" unfolding v by simp
    finally show ?thesis .
  qed
  from binade_exists [OF \<open>0 < n\<close>] obtain e0 where e0: "0 \<le> e0" "2 powi e0 \<le> real n"
    "real n < 2 powi (e0 + 1)" by blast
  have "real n < 2 ^ 24"
    using lt unfolding n_def by (metis of_nat_less_iff of_nat_numeral of_nat_power)
  then have "real n < 2 powi 24" by simp
  from two_powi_less_cancel [OF e0(2) this] have e24: "e0 < 24" .
  have h: "(2::real) powi e0 = 2 powi (e0 - 1) * 2 powi 1"
    using two_powi_add [of "e0 - 1" 1] by simp
  have h2: "(2::real) powi (e0 + 1) = 2 powi (e0 - 1 + 1) * 2 powi 1"
    using two_powi_add [of "e0 - 1 + 1" 1] by simp
  have b1: "2 powi (e0 - 1) \<le> real n / 2"
    using e0(2) unfolding h by simp
  have b2: "real n / 2 < 2 powi (e0 - 1 + 1)"
    using e0(3) unfolding h2 by simp
  have "(2::real) powi (23 - e0) = 2 ^ nat (23 - e0)"
    using e24 by (simp add: power_int_nonneg_exp)
  moreover have "(2::real) powi (23 - (e0 - 1)) = 2 powi (23 - e0) * 2 powi 1"
    using two_powi_add [of "23 - e0" 1] by (simp add: algebra_simps)
  ultimately have K: "real n / 2 * 2 powi (23 - (e0 - 1)) = real (n * 2 ^ nat (23 - e0))"
    by simp
  have pz: "(0::nat) < 8388608" by simp
  from f32_round_exact [of m 8388608 "e0 - 1" "t + 22" "n * 2 ^ nat (23 - e0)" False,
      unfolded X, OF m pz b1 b2 _ _ K] e0(1) e24
  obtain m2 t2 where r: "f32_decode (f32_round False m 8388608 (t + 22)) = Finite False m2 t2"
    "real m2 * 2 powi t2 = real n / 2" by auto
  have "real n / 2 < 2 ^ 32" using \<open>real n < 2 ^ 24\<close> by simp
  from f32_to_u32_finite [OF r(1) this [folded r(2)]]
  have "f32_to_u32 (f32_round False m 8388608 (t + 22)) = Some (of_nat (nat \<lfloor>real n / 2\<rfloor>))"
    unfolding r(2) .
  moreover have "\<lfloor>real n / real 2\<rfloor> = int (n div 2)"
    by (rule floor_divide_of_nat_eq)
  ultimately show ?thesis
    unfolding dv n_def [symmetric] by simp
qed

lemma quotient_error:
  assumes w: "0 < unat w" "unat w < 2 ^ 24" and nw: "0 < unat nw" "unat nw < 2 ^ 24"
  shows "\<exists>m t. f32_decode (f32_div (f32_of_u32 w) (f32_of_u32 nw)) = Finite False m t
            \<and> \<bar>real m * 2 powi t - real (unat w) / real (unat nw)\<bar>
                 \<le> real (unat w) / real (unat nw) / 2 ^ 24"
proof -
  define a where "a = unat w"
  define b where "b = unat nw"
  define X where "X = real a / real b"
  have a0: "0 < a" "a < 2 ^ 24" and b0: "0 < b" "b < 2 ^ 24"
    using w nw by (simp_all add: a_def b_def)
  have ra: "1 \<le> real a" "real a < 2 ^ 24"
    using a0 by (simp, metis of_nat_less_iff of_nat_numeral of_nat_power)
  have rb: "1 \<le> real b" "real b < 2 ^ 24"
    using b0 by (simp, metis of_nat_less_iff of_nat_numeral of_nat_power)
  from f32_of_u32_exact [OF w] obtain m1 t1
    where d1: "f32_decode (f32_of_u32 w) = Finite False m1 t1"
      and v1: "real m1 * 2 powi t1 = real a" by (auto simp: a_def)
  from f32_of_u32_exact [OF nw] obtain m2 t2
    where d2: "f32_decode (f32_of_u32 nw) = Finite False m2 t2"
      and v2: "real m2 * 2 powi t2 = real b" by (auto simp: b_def)
  have m1: "0 < m1" using v1 ra(1) by (cases "m1 = 0") simp_all
  have m2: "0 < m2" using v2 rb(1) by (cases "m2 = 0") simp_all
  have dv: "f32_div (f32_of_u32 w) (f32_of_u32 nw) = f32_round False m1 m2 (t1 - t2)"
    using m2 by (simp add: f32_div_def d1 d2)
  have Xeq: "real m1 / real m2 * 2 powi (t1 - t2) = X"
  proof -
    have "(2::real) powi (t1 - t2) = 2 powi t1 / 2 powi t2"
      by (simp add: power_int_diff)
    then have "real m1 / real m2 * 2 powi (t1 - t2)
                 = (real m1 * 2 powi t1) / (real m2 * 2 powi t2)"
      by simp
    then show ?thesis unfolding v1 v2 X_def .
  qed
  have Xlo: "1 / 2 ^ 24 \<le> X"
  proof -
    have "1 / 2 ^ 24 \<le> 1 / real b"
      using rb by (intro divide_left_mono) simp_all
    also have "\<dots> \<le> real a / real b"
      using ra(1) rb(1) by (intro divide_right_mono) simp_all
    finally show ?thesis unfolding X_def .
  qed
  have Xhi: "X < 2 ^ 24"
  proof -
    have "real a / real b \<le> real a / 1"
      using rb(1) ra(1) by (intro divide_left_mono) simp_all
    with ra(2) show ?thesis unfolding X_def by simp
  qed
  have X0: "0 < X" using Xlo by (smt (verit) divide_pos_pos zero_less_power)
  have lo: "2 powi (- 126) \<le> X"
  proof -
    have "(2::real) powi (- 126) \<le> 2 powi (- 24)"
      by (intro power_int_increasing) simp_all
    also have "\<dots> = 1 / 2 ^ 24" by (simp add: power_int_minus_divide)
    finally show ?thesis using Xlo by linarith
  qed
  have hi: "X < 2 powi 127"
  proof -
    have "(2::real) powi 24 \<le> 2 powi 127"
      by (intro power_int_increasing) simp_all
    with Xhi show ?thesis by simp
  qed
  from f32_round_value [of m1 m2 "t1 - t2" False, unfolded Xeq, OF m1 m2 lo hi]
  obtain e M m t where r: "2 powi e \<le> X"
    "f32_decode (f32_round False m1 m2 (t1 - t2)) = Finite False m t"
    "real m * 2 powi t = real M * 2 powi (e - 23)"
    "\<bar>real M - X * 2 powi (23 - e)\<bar> \<le> 1 / 2"
    by auto
  have pe: "(0::real) < 2 powi (e - 23)" by simp
  have "\<bar>real M - X * 2 powi (23 - e)\<bar> * 2 powi (e - 23) \<le> 1 / 2 * 2 powi (e - 23)"
    using r(4) pe by (intro mult_right_mono) simp_all
  moreover have "\<bar>real M - X * 2 powi (23 - e)\<bar> * 2 powi (e - 23)
                   = \<bar>real M * 2 powi (e - 23) - X * 2 powi (23 - e) * 2 powi (e - 23)\<bar>"
    using pe by (simp add: abs_mult left_diff_distrib [symmetric])
  ultimately have "\<bar>real M * 2 powi (e - 23) - X\<bar> \<le> 2 powi (e - 23) / 2"
    unfolding scale_back by simp
  moreover have "(2::real) powi (e - 23) = 2 powi e * 2 powi (- 23)"
    using two_powi_add [of e "- 23"] by simp
  then have "(2::real) powi (e - 23) / 2 \<le> X / 2 ^ 24"
    using r(1) by simp
  ultimately have "\<bar>real m * 2 powi t - X\<bar> \<le> X / 2 ^ 24"
    unfolding r(3) by linarith
  with r(2) show ?thesis
    unfolding dv X_def a_def b_def by blast
qed

lemma f32_decode_range:
  assumes "f32_decode x = Finite sg m t"
  shows "m < 2 ^ 24 \<and> - 149 \<le> t \<and> t \<le> 104 \<and> (2 ^ 23 \<le> m \<or> t = - 149)"
proof -
  define n where "n = unat x"
  define ex where "ex = (n div 2 ^ 23) mod 256"
  define fr where "fr = n mod 2 ^ 23"
  have ex: "ex < 256" by (simp add: ex_def)
  have fr: "fr < 2 ^ 23" by (simp add: fr_def)
  have d: "f32_decode x =
             (if ex = 255 then (if fr = 0 then Infinite (2 ^ 31 \<le> n) else NaN)
              else if ex = 0 then Finite (2 ^ 31 \<le> n) fr (- 149)
              else Finite (2 ^ 31 \<le> n) (2 ^ 23 + fr) (int ex - 150))"
    by (simp add: f32_decode_def Let_def n_def ex_def fr_def)
  show ?thesis
  proof (cases "ex = 255")
    case True
    with assms d show ?thesis by (simp split: if_splits)
  next
    case False
    show ?thesis
    proof (cases "ex = 0")
      case True
      with assms d fr show ?thesis by simp
    next
      case nz: False
      from assms d False nz have "m = 2 ^ 23 + fr" "t = int ex - 150" by simp_all
      with fr ex False nz show ?thesis by simp
    qed
  qed
qed

lemma lit_minus_1f_decode: "f32_decode lit_minus_1f = Finite True 8388608 (- 23)"
  by (simp add: f32_decode_def lit_minus_1f_def)

lemma f32_neg_add: "f32_neg x = x + 0x80000000"
proof -
  have "x XOR 0x80000000 = flip_bit 31 x"
    by (simp add: flip_bit_eq_xor)
  also have "\<dots> = (if bit x 31 then x - 2 ^ 31 else x + 2 ^ 31)"
    by (simp add: flip_bit_eq_if set_bit_eq unset_bit_eq)
  also have "\<dots> = x + 0x80000000"
    by simp
  finally show ?thesis by (simp add: f32_neg_def)
qed

lemma f32_fields:
  "\<exists>sg ex f. f < 2 ^ 23 \<and> ex < 256
       \<and> x = of_nat (f32_sign_bits sg + (ex * 2 ^ 23 + f))
       \<and> f32_neg x = of_nat (f32_sign_bits (\<not> sg) + (ex * 2 ^ 23 + f))"
proof -
  define n where "n = unat x"
  define sg where "sg = (2 ^ 31 \<le> n)"
  define r where "r = n mod 2 ^ 31"
  define ex where "ex = r div 2 ^ 23"
  define f where "f = r mod 2 ^ 23"
  have n32: "n < 2 ^ 32"
    unfolding n_def using unsigned_less [of x, where ?'a = nat] by simp
  have f: "f < 2 ^ 23" by (simp add: f_def)
  have r31: "r < 2 ^ 31" by (simp add: r_def)
  have ex: "ex < 256"
  proof -
    have "r < 256 * 2 ^ 23" using r31 by simp
    then show ?thesis unfolding ex_def by (rule less_mult_imp_div_less)
  qed
  have r: "r = ex * 2 ^ 23 + f" by (simp add: ex_def f_def)
  have n: "n = f32_sign_bits sg + r"
  proof (cases sg)
    case True
    then have "2 ^ 31 \<le> n" by (simp add: sg_def)
    then have "n mod 2 ^ 31 = (n - 2 ^ 31) mod 2 ^ 31" by (rule le_mod_geq)
    also have "\<dots> = n - 2 ^ 31" using n32 by simp
    finally show ?thesis using True \<open>2 ^ 31 \<le> n\<close> by (simp add: r_def f32_sign_bits_def)
  next
    case False
    then have "n < 2 ^ 31" by (simp add: sg_def)
    then show ?thesis using False by (simp add: r_def f32_sign_bits_def)
  qed
  have x: "x = of_nat (f32_sign_bits sg + r)"
    unfolding n [symmetric] by (simp add: n_def)
  have ng: "f32_neg x = of_nat (f32_sign_bits (\<not> sg) + r)"
  proof (cases sg)
    case True
    have "f32_neg x = (of_nat (2 ^ 31 + r) :: 32 word) + of_nat (2 ^ 31)"
      unfolding f32_neg_add using x True by (simp add: f32_sign_bits_def)
    also have "\<dots> = of_nat (2 ^ 32 + r)"
      by (simp only: of_nat_add [symmetric]) simp
    also have "\<dots> = (of_nat r :: 32 word)"
      by simp
    finally show ?thesis using True by (simp add: f32_sign_bits_def)
  next
    case False
    have "f32_neg x = (of_nat r :: 32 word) + of_nat (2 ^ 31)"
      unfolding f32_neg_add using x False by (simp add: f32_sign_bits_def)
    also have "\<dots> = of_nat (2 ^ 31 + r)"
      by (simp only: of_nat_add [symmetric] add.commute)
    finally show ?thesis using False by (simp add: f32_sign_bits_def)
  qed
  show ?thesis
    using f ex x ng unfolding r by blast
qed

lemma f32_decode_neg:
  "f32_decode (f32_neg x) =
     (case f32_decode x of
        Finite sg m e \<Rightarrow> Finite (\<not> sg) m e
      | Infinite sg \<Rightarrow> Infinite (\<not> sg)
      | NaN \<Rightarrow> NaN)"
proof -
  from f32_fields [of x] obtain sg ex f
    where h: "f < 2 ^ 23" "ex < 256"
      "x = of_nat (f32_sign_bits sg + (ex * 2 ^ 23 + f))"
      "f32_neg x = of_nat (f32_sign_bits (\<not> sg) + (ex * 2 ^ 23 + f))"
    by blast
  have dx: "f32_decode x
              = (if ex = 255 then (if f = 0 then Infinite sg else NaN)
                 else if ex = 0 then Finite sg f (- 149)
                 else Finite sg (2 ^ 23 + f) (int ex - 150))"
    by (subst h(3)) (rule decode_fields_all [OF h(1,2)])
  have dn: "f32_decode (f32_neg x)
              = (if ex = 255 then (if f = 0 then Infinite (\<not> sg) else NaN)
                 else if ex = 0 then Finite (\<not> sg) f (- 149)
                 else Finite (\<not> sg) (2 ^ 23 + f) (int ex - 150))"
    unfolding h(4) by (rule decode_fields_all [OF h(1,2)])
  show ?thesis unfolding dx dn by simp
qed

lemma f32_value_neg: "f32_value (f32_neg x) = - f32_value x"
  by (simp add: f32_value_def f32_decode_neg split: f32_class.splits)

lemma f32_of_u32_zero: "f32_of_u32 0 = 0"
  by (simp add: f32_of_u32_def f32_round_def f32_sign_bits_def)

lemma f32_value_zero: "f32_value 0 = 0"
  by (simp add: f32_value_def f32_decode_def)

lemma f32_of_u32_value:
  assumes lt: "unat w < 2 ^ 24"
  shows "f32_value (f32_of_u32 w) = real (unat w)"
proof (cases "unat w = 0")
  case True
  then have "w = 0" by (simp add: unat_eq_0)
  then show ?thesis by (simp add: f32_of_u32_zero f32_value_zero)
next
  case False
  then have pos: "0 < unat w" by simp
  from f32_of_u32_exact [OF pos lt] obtain m t
    where "f32_decode (f32_of_u32 w) = Finite False m t" "real m * 2 powi t = real (unat w)"
    by blast
  then show ?thesis by (simp add: f32_value_def)
qed

lemma f32_of_u32_error:
  "\<bar>f32_value (f32_of_u32 w) - real (unat w)\<bar> \<le> real (unat w) / 2 ^ 24"
proof (cases "unat w = 0")
  case True
  then have "w = 0" by (simp add: unat_eq_0)
  then show ?thesis by (simp add: f32_of_u32_zero f32_value_zero)
next
  case False
  define n where "n = unat w"
  have pos: "0 < n" using False by (simp add: n_def)
  have "n < 2 ^ 32" unfolding n_def using unsigned_less [of w, where ?'a = nat] by simp
  then have "real n < 2 ^ 32" by (metis of_nat_less_iff of_nat_numeral of_nat_power)
  then have n32: "real n < 2 powi 32" by simp
  have "1 \<le> n" using pos by simp
  then have "real 1 \<le> real n" by (simp only: of_nat_le_iff)
  then have n1: "1 \<le> real n" by simp
  have X: "real n / real 1 * 2 powi 0 = real n" by simp
  have lo: "2 powi (- 126) \<le> real n"
  proof -
    have "(2::real) powi (- 126) \<le> 2 powi 0"
      by (intro power_int_increasing) simp_all
    with n1 show ?thesis by simp
  qed
  have hi: "real n < 2 powi 127"
  proof -
    have "(2::real) powi 32 \<le> 2 powi 127"
      by (intro power_int_increasing) simp_all
    with n32 show ?thesis by linarith
  qed
  from f32_round_value [of n 1 0 False, unfolded X, OF pos _ lo hi]
  obtain e M m t where r: "2 powi e \<le> real n"
    "f32_decode (f32_round False n 1 0) = Finite False m t"
    "real m * 2 powi t = real M * 2 powi (e - 23)"
    "\<bar>real M - real n * 2 powi (23 - e)\<bar> \<le> 1 / 2"
    by auto
  have v: "f32_value (f32_of_u32 w) = real M * 2 powi (e - 23)"
    using r(2,3) by (simp add: f32_value_def f32_of_u32_def n_def)
  define c where "c = (2::real) powi (e - 23)"
  have c: "0 < c" by (simp add: c_def)
  have bk: "real n * 2 powi (23 - e) * c = real n"
    unfolding c_def by (rule scale_back)
  have "(real M - real n * 2 powi (23 - e)) * c = real M * c - real n * 2 powi (23 - e) * c"
    by (rule left_diff_distrib)
  also have "\<dots> = real M * c - real n"
    by (simp only: bk)
  finally have "\<bar>real M * c - real n\<bar> = \<bar>(real M - real n * 2 powi (23 - e)) * c\<bar>"
    by simp
  also have "\<dots> = \<bar>real M - real n * 2 powi (23 - e)\<bar> * c"
    using c by (simp add: abs_mult)
  also have "\<dots> \<le> 1 / 2 * c"
    using r(4) c by (intro mult_right_mono) simp_all
  finally have err: "\<bar>real M * c - real n\<bar> \<le> c / 2" by simp
  have "c / 2 = 2 powi e / 2 ^ 24"
  proof -
    have "(2::real) powi (e - 23) * 2 powi 23 = 2 powi (e - 23 + 23)"
      by (rule two_powi_add)
    then have "(2::real) powi e = 2 powi (e - 23) * 2 ^ 23"
      by simp
    then show ?thesis by (simp add: c_def)
  qed
  also have "\<dots> \<le> real n / 2 ^ 24"
    using r(1) by (simp add: divide_right_mono)
  finally have "c / 2 \<le> real n / 2 ^ 24" .
  with err show ?thesis unfolding v c_def [symmetric] n_def [symmetric] by linarith
qed

lemma rne_exact: "0 < d \<Longrightarrow> rne (m * d) d = m"
  by (simp add: rne_def)

lemma round_fields:
  assumes f: "f < 2 ^ 23" and ex: "ex < 255"
      and m: "m = (if ex = 0 then f else 2 ^ 23 + f)"
      and t: "t = (if ex = 0 then - 149 else int ex - 150)"
  shows "f32_round sg (m * 8388608) 1 (t + - 23) = of_nat (f32_sign_bits sg + (ex * 2 ^ 23 + f))"
proof (cases "m = 0")
  case True
  with m f have "ex = 0" "f = 0" by (simp_all split: if_splits)
  with True show ?thesis by (simp add: f32_round_def)
next
  case False
  define p where "p = m * 8388608"
  define L where "L = ilog2_ratio p 1"
  have p: "0 < p" using False by (simp add: p_def)
  from ilog2_ratio_spec [OF p, of 1]
  have s1: "2 powi L \<le> real p" and s2: "real p < 2 powi (L + 1)"
    by (simp_all add: L_def)
  have m24: "m < 2 ^ 24" using m f by (simp split: if_splits)
  have rp: "real p = real m * 2 ^ 23" by (simp add: p_def)
  have "real m < 2 ^ 24"
    using m24 by (metis of_nat_less_iff of_nat_numeral of_nat_power)
  then have "real p < 2 ^ 24 * 2 ^ 23" unfolding rp by simp
  then have "real p < 2 powi 47" by simp
  from two_powi_less_cancel [OF s1 this] have L47: "L < 47" .
  have tmax: "max (L + (t + - 23) - 23) (- 149) = t"
  proof (cases "ex = 0")
    case True
    with m have "m < 2 ^ 23" using f by simp
    then have "real m < 2 ^ 23"
      by (metis of_nat_less_iff of_nat_numeral of_nat_power)
    then have "real p < 2 ^ 23 * 2 ^ 23" unfolding rp by simp
    then have "real p < 2 powi 46" by simp
    from two_powi_less_cancel [OF s1 this] have "L < 46" .
    then show ?thesis using True t by simp
  next
    case nz: False
    with m have "2 ^ 23 \<le> m" by simp
    then have "(2::real) ^ 23 \<le> real m"
      by (metis of_nat_le_iff of_nat_numeral of_nat_power)
    then have "(2::real) ^ 23 * 2 ^ 23 \<le> real p" unfolding rp by simp
    then have "2 powi 46 \<le> real p" by simp
    from two_powi_less_cancel [OF this s2] have "46 < L + 1" .
    with L47 have "L = 46" by simp
    then show ?thesis using nz t by simp
  qed
  have ts: "\<not> t \<le> t + - 23" by simp
  have nt: "nat (t - (t + - 23)) = 23" by simp
  have r: "rne p (1 * 2 ^ 23) = m"
    unfolding p_def using rne_exact [of "2 ^ 23" m] by simp
  have b: "nat (t + 149) * 2 ^ 23 + m = ex * 2 ^ 23 + f"
  proof (cases "ex = 0")
    case True
    then show ?thesis using m t by simp
  next
    case nz: False
    then obtain k where k: "ex = Suc k" by (cases ex) simp_all
    then show ?thesis using m t by simp
  qed
  have "ex * 2 ^ 23 + f < ex * 2 ^ 23 + 2 ^ 23" using f by simp
  also have "\<dots> = (ex + 1) * 2 ^ 23" by simp
  also have "\<dots> \<le> 255 * 2 ^ 23" using ex by (intro mult_right_mono) simp_all
  finally have "ex * 2 ^ 23 + f < 0x7F800000" by simp
  then have mn: "min (ex * 2 ^ 23 + f) 0x7F800000 = ex * 2 ^ 23 + f" by simp
  have "f32_round sg p 1 (t + - 23)
          = of_nat (f32_sign_bits sg + min (nat (t + 149) * 2 ^ 23 + rne p (1 * 2 ^ 23)) 0x7F800000)"
    using p unfolding f32_round_def Let_def L_def [symmetric] tmax
    by (simp only: ts nt if_False) simp
  then have "f32_round sg p 1 (t + - 23) = of_nat (f32_sign_bits sg + (ex * 2 ^ 23 + f))"
    unfolding r b mn .
  then show ?thesis
    unfolding p_def .
qed

lemma f32_mul_minus_1:
  assumes "f32_decode x \<noteq> NaN"
  shows "f32_mul x lit_minus_1f = f32_neg x"
proof -
  from f32_fields [of x] obtain sg ex f
    where h: "f < 2 ^ 23" "ex < 256"
      "x = of_nat (f32_sign_bits sg + (ex * 2 ^ 23 + f))"
      "f32_neg x = of_nat (f32_sign_bits (\<not> sg) + (ex * 2 ^ 23 + f))"
    by blast
  have dx: "f32_decode x
              = (if ex = 255 then (if f = 0 then Infinite sg else NaN)
                 else if ex = 0 then Finite sg f (- 149)
                 else Finite sg (2 ^ 23 + f) (int ex - 150))"
    by (subst h(3)) (rule decode_fields_all [OF h(1,2)])
  show ?thesis
  proof (cases "ex = 255")
    case True
    with dx assms have f0: "f = 0" and d: "f32_decode x = Infinite sg"
      by (simp_all split: if_splits)
    have "f32_mul x lit_minus_1f = f32_inf (\<not> sg)"
      by (simp add: f32_mul_def d lit_minus_1f_decode)
    also have "\<dots> = f32_neg x"
      unfolding h(4) True f0 by (simp add: f32_inf_def)
    finally show ?thesis .
  next
    case False
    with h(2) have ex: "ex < 255" by simp
    define m where "m = (if ex = 0 then f else 2 ^ 23 + f)"
    define t where "t = (if ex = 0 then - 149 else int ex - 150)"
    have d: "f32_decode x = Finite sg m t"
      using dx False by (simp add: m_def t_def)
    have "f32_mul x lit_minus_1f = f32_round (\<not> sg) (m * 8388608) 1 (t + - 23)"
      by (simp add: f32_mul_def d lit_minus_1f_decode)
    also have "\<dots> = of_nat (f32_sign_bits (\<not> sg) + (ex * 2 ^ 23 + f))"
      by (rule round_fields [OF h(1) ex m_def t_def])
    also have "\<dots> = f32_neg x"
      by (simp only: h(4))
    finally show ?thesis .
  qed
qed

lemma f32_round_not_nan: "f32_decode (f32_round sg p q s) \<noteq> NaN"
proof -
  have "\<exists>c. f32_round sg p q s = of_nat (f32_sign_bits sg + c) \<and> c \<le> 0x7F800000"
  proof (cases "p = 0")
    case True
    then show ?thesis by (intro exI [of _ 0]) (simp add: f32_round_def)
  next
    case False
    then show ?thesis
      unfolding f32_round_def Let_def by (simp only: if_False) (metis min.cobounded2)
  qed
  then obtain c where c: "f32_round sg p q s = of_nat (f32_sign_bits sg + c)" "c \<le> 0x7F800000"
    by blast
  define ex where "ex = c div 2 ^ 23"
  define f where "f = c mod 2 ^ 23"
  have f: "f < 2 ^ 23" by (simp add: f_def)
  have "c < 256 * 2 ^ 23" using c(2) by simp
  then have ex: "ex < 256" unfolding ex_def by (rule less_mult_imp_div_less)
  have ce: "c = ex * 2 ^ 23 + f" by (simp add: ex_def f_def)
  have "ex = 255 \<longrightarrow> f = 0"
    using c(2) unfolding ce by simp
  then show ?thesis
    unfolding c(1) ce using decode_fields_all [OF f ex, of sg] by simp
qed

lemma f32_of_u32_rounds:
  "\<exists>m t. f32_decode (f32_of_u32 w) = Finite False m t \<and> (m = 0 \<longleftrightarrow> w = 0)"
proof (cases "unat w = 0")
  case True
  then have "w = 0" by (simp add: unat_eq_0)
  then show ?thesis by (simp add: f32_of_u32_zero f32_decode_def)
next
  case False
  define n where "n = unat w"
  have pos: "0 < n" using False by (simp add: n_def)
  have w: "w \<noteq> 0" using False by auto
  have "n < 2 ^ 32" unfolding n_def using unsigned_less [of w, where ?'a = nat] by simp
  then have "real n < 2 ^ 32" by (metis of_nat_less_iff of_nat_numeral of_nat_power)
  then have n32: "real n < 2 powi 32" by simp
  have "1 \<le> n" using pos by simp
  then have "real 1 \<le> real n" by (simp only: of_nat_le_iff)
  then have n1: "1 \<le> real n" by simp
  have X: "real n / real 1 * 2 powi 0 = real n" by simp
  have lo: "2 powi (- 126) \<le> real n"
  proof -
    have "(2::real) powi (- 126) \<le> 2 powi 0"
      by (intro power_int_increasing) simp_all
    with n1 show ?thesis by simp
  qed
  have hi: "real n < 2 powi 127"
  proof -
    have "(2::real) powi 32 \<le> 2 powi 127"
      by (intro power_int_increasing) simp_all
    with n32 show ?thesis by linarith
  qed
  from f32_round_value [of n 1 0 False, unfolded X, OF pos _ lo hi]
  obtain e M m t where r: "2 powi e \<le> real n"
    "f32_decode (f32_round False n 1 0) = Finite False m t"
    "real m * 2 powi t = real M * 2 powi (e - 23)"
    "\<forall>k. real k \<le> real n * 2 powi (23 - e) \<longrightarrow> k \<le> M"
    by auto
  have "(2::real) powi e * 2 powi (23 - e) \<le> real n * 2 powi (23 - e)"
    using r(1) by (intro mult_right_mono) simp_all
  moreover have "(2::real) powi e * 2 powi (23 - e) = 2 powi (e + (23 - e))"
    by (rule two_powi_add)
  ultimately have "real (1::nat) \<le> real n * 2 powi (23 - e)" by simp
  with r(4) have "1 \<le> M" by blast
  then have "0 < real M * 2 powi (e - 23)" by simp
  then have "m \<noteq> 0" unfolding r(3) [symmetric] by (cases "m = 0") simp_all
  with r(2) w show ?thesis
    unfolding f32_of_u32_def n_def by blast
qed

lemma ratio_nan_iff:
  "f32_decode (f32_div (f32_of_u32 a) (f32_of_u32 b)) = NaN \<longleftrightarrow> a = 0 \<and> b = 0"
proof -
  from f32_of_u32_rounds [of a] obtain m1 t1
    where d1: "f32_decode (f32_of_u32 a) = Finite False m1 t1" and z1: "m1 = 0 \<longleftrightarrow> a = 0"
    by blast
  from f32_of_u32_rounds [of b] obtain m2 t2
    where d2: "f32_decode (f32_of_u32 b) = Finite False m2 t2" and z2: "m2 = 0 \<longleftrightarrow> b = 0"
    by blast
  have q: "f32_decode f32_qnan = NaN"
    by (simp add: f32_decode_def f32_qnan_def)
  have i: "f32_decode (f32_inf False) = Infinite False"
    by (simp add: f32_decode_def f32_inf_def f32_sign_bits_def)
  show ?thesis
    unfolding f32_div_def d1 d2 using z1 z2 q i f32_round_not_nan [of False m1 m2 "t1 - t2"]
    by auto
qed

lemma ratio_error:
  assumes a: "0 < unat a" "unat a < 2 ^ 24" and b: "0 < unat b" "unat b < 2 ^ 24"
  shows "\<bar>f32_value (f32_div (f32_of_u32 a) (f32_of_u32 b)) - real (unat a) / real (unat b)\<bar>
            \<le> real (unat a) / real (unat b) / 2 ^ 24"
proof -
  from quotient_error [OF a b] obtain m t
    where "f32_decode (f32_div (f32_of_u32 a) (f32_of_u32 b)) = Finite False m t"
      and "\<bar>real m * 2 powi t - real (unat a) / real (unat b)\<bar>
             \<le> real (unat a) / real (unat b) / 2 ^ 24"
    by blast
  then show ?thesis by (simp add: f32_value_def)
qed

section \<open>The HUD-centering callback\<close>

text \<open>
  C1. The claim: the HUD callback mutates the fields only when the top byte of the field at
  \<open>+0x30\<close> is \<open>0xBF\<close> and the top byte of the field at \<open>+0x3C\<close> is \<open>0x3F\<close>. The guard of
  the code masks each field with the expected pattern itself, so it only asks that the bits
  of the pattern are set: with both fields \<open>0xFFFFFFFF\<close> (top bytes \<open>0xFF\<close>) the callback
  overwrites the fields at \<open>+0x00\<close> and \<open>+0x30\<close>.
\<close>

theorem hud_guard_accepts_top_byte_0xFF:
  "(let mem = sample_mem 0x1000 0xFFFFFFFF 0xFFFFFFFF;
        ctx = sample_ctx 0x1000;
        mem' = hudElementsFix_callback (sample_globals 3440 1440 2560 False) ctx mem
    in drop_bit 24 (read_u32 mem (eax ctx + 0x30)) = 0xFF
     \<and> drop_bit 24 (read_u32 mem (eax ctx + 0x3C)) = 0xFF
     \<and> read_u32 mem (eax ctx) = 0 \<and> read_u32 mem' (eax ctx) = 0x39E2D77D
     \<and> read_u32 mem (eax ctx + 0x30) = 0xFFFFFFFF
     \<and> read_u32 mem' (eax ctx + 0x30) = 0xBF3E82FA)"
proof -
  let ?mem = "sample_mem 0x1000 0xFFFFFFFF 0xFFFFFFFF"
  let ?ctx = "sample_ctx 0x1000"
  let ?g = "sample_globals 3440 1440 2560 False"
  have s0: "read_u32 ?mem (eax ?ctx + 0x30) = 0xFFFFFFFF"
    and s1: "read_u32 ?mem (eax ?ctx + 0x3C) = 0xFFFFFFFF"
    by (simp_all only: eax_sample_ctx sample_mem_fields)
  have b: "read_u32 ?mem (eax ?ctx) = 0"
    by (simp only: eax_sample_ctx sample_mem_base)
  have g0: "read_u32 ?mem (eax ?ctx + 0x30) AND 0xBF000000 = 0xBF000000"
    unfolding s0 by simp
  have g1: "read_u32 ?mem (eax ?ctx + 0x3C) AND 0x3F000000 = 0x3F000000"
    unfolding s1 by simp
  have a': "read_u32 (hudElementsFix_callback ?g ?ctx ?mem) (eax ?ctx) = 0x39E2D77D"
    by (simp only: hud_written_fields(1) [OF g0 g1] sample_globals_fields ratio_3440 fieldA_3440)
  have b': "read_u32 (hudElementsFix_callback ?g ?ctx ?mem) (eax ?ctx + 0x30) = 0xBF3E82FA"
    by (simp only: hud_written_fields(2) [OF g0 g1] sample_globals_fields ratio_3440 fieldB_3440)
  have t0: "drop_bit 24 (read_u32 ?mem (eax ?ctx + 0x30)) = 0xFF"
    unfolding s0 by simp
  have t1: "drop_bit 24 (read_u32 ?mem (eax ?ctx + 0x3C)) = 0xFF"
    unfolding s1 by simp
  show ?thesis
    unfolding Let_def using s0 b a' b' t0 t1 by simp
qed

text \<open>
  C4. When both guards pass, the callback stores \<open>(2.0f / width) * ratio\<close> at \<open>eax + 0x00\<close>
  and \<open>ratio * -1.0f\<close> at \<open>eax + 0x30\<close>, where \<open>ratio = nativeWidth / width\<close> in single
  precision, and writes no other byte. The second field is \<open>ratio\<close> with its sign changed:
  the same magnitude and the opposite sign, an infinity for an infinity, a NaN for a NaN.
  The ratio is a NaN only when the width and the native width are both \<open>0\<close>; in every
  other case the second field is, bit for bit, the rounded product of \<open>ratio\<close> and
  \<open>-1.0f\<close>. For a native width and a width between 1 and \<open>2^24\<close> the ratio is within a
  relative \<open>2^(-24)\<close> of the quotient. For the width 7680 with the native width 3840 the
  ratio is \<open>0.5\<close> (\<open>0x3F000000\<close>), the first field \<open>(2/7680) * 0.5\<close> (\<open>0x39088889\<close>) and the
  second \<open>-0.5\<close>; for 3440 with 2560 the ratio is the single nearest to \<open>2560/3440\<close>
  (\<open>0x3F3E82FA\<close>), the second field its negation.
\<close>

theorem hud_formula:
  assumes g0: "read_u32 mem (eax ctx + 0x30) AND 0xBF000000 = 0xBF000000"
      and g1: "read_u32 mem (eax ctx + 0x3C) AND 0x3F000000 = 0x3F000000"
  shows "(let w = width (resolution (yml g));
              ratio = f32_div (f32_of_u32 (nativeWidth g)) (f32_of_u32 w);
              mem' = hudElementsFix_callback g ctx mem
          in read_u32 mem' (eax ctx) = f32_mul (f32_div lit_2f (f32_of_u32 w)) ratio
           \<and> read_u32 mem' (eax ctx + 0x30) = f32_neg ratio
           \<and> f32_decode (read_u32 mem' (eax ctx + 0x30))
                = (case f32_decode ratio of
                     Finite sg m e \<Rightarrow> Finite (\<not> sg) m e
                   | Infinite sg \<Rightarrow> Infinite (\<not> sg)
                   | NaN \<Rightarrow> NaN)
           \<and> f32_value (read_u32 mem' (eax ctx + 0x30)) = - f32_value ratio
           \<and> (f32_decode ratio = NaN \<longleftrightarrow> w = 0 \<and> nativeWidth g = 0)
           \<and> (\<not> (w = 0 \<and> nativeWidth g = 0) \<longrightarrow>
                read_u32 mem' (eax ctx + 0x30) = f32_mul ratio lit_minus_1f)
           \<and> (\<forall>b. b \<notin> {eax ctx, eax ctx + 1, eax ctx + 2, eax ctx + 3,
                        eax ctx + 0x30, eax ctx + 0x31, eax ctx + 0x32, eax ctx + 0x33}
                  \<longrightarrow> mem' b = mem b)
           \<and> (0 < unat (nativeWidth g) \<and> unat (nativeWidth g) < 2 ^ 24
                \<and> 0 < unat w \<and> unat w < 2 ^ 24 \<longrightarrow>
                \<bar>f32_value ratio - real (unat (nativeWidth g)) / real (unat w)\<bar>
                     \<le> real (unat (nativeWidth g)) / real (unat w) / 2 ^ 24)
           \<and> (w = 7680 \<and> nativeWidth g = 3840 \<longrightarrow>
                ratio = 0x3F000000 \<and> read_u32 mem' (eax ctx) = 0x39088889
                \<and> read_u32 mem' (eax ctx + 0x30) = 0xBF000000)
           \<and> (w = 3440 \<and> nativeWidth g = 2560 \<longrightarrow>
                ratio = 0x3F3E82FA \<and> read_u32 mem' (eax ctx) = 0x39E2D77D
                \<and> read_u32 mem' (eax ctx + 0x30) = 0xBF3E82FA))"
proof -
  define w where "w = width (resolution (yml g))"
  define ratio where "ratio = f32_div (f32_of_u32 (nativeWidth g)) (f32_of_u32 w)"
  define mem' where "mem' = hudElementsFix_callback g ctx mem"
  note f = hud_written_fields [OF g0 g1, of g, folded w_def, folded ratio_def mem'_def]
  have dec: "f32_decode (read_u32 mem' (eax ctx + 0x30))
               = (case f32_decode ratio of
                    Finite sg m e \<Rightarrow> Finite (\<not> sg) m e
                  | Infinite sg \<Rightarrow> Infinite (\<not> sg)
                  | NaN \<Rightarrow> NaN)"
    unfolding f(2) by (rule f32_decode_neg)
  have val: "f32_value (read_u32 mem' (eax ctx + 0x30)) = - f32_value ratio"
    unfolding f(2) by (rule f32_value_neg)
  have nan: "f32_decode ratio = NaN \<longleftrightarrow> w = 0 \<and> nativeWidth g = 0"
    unfolding ratio_def using ratio_nan_iff [of "nativeWidth g" w] by blast
  have prod: "\<not> (w = 0 \<and> nativeWidth g = 0) \<longrightarrow>
                read_u32 mem' (eax ctx + 0x30) = f32_mul ratio lit_minus_1f"
    unfolding f(2) using nan f32_mul_minus_1 [of ratio] by simp
  have frame: "\<forall>b. b \<notin> {eax ctx, eax ctx + 1, eax ctx + 2, eax ctx + 3,
                        eax ctx + 0x30, eax ctx + 0x31, eax ctx + 0x32, eax ctx + 0x33}
                  \<longrightarrow> mem' b = mem b"
    unfolding mem'_def by (simp add: hud_guard_passes [OF g0 g1] write_u32_def add.assoc)
  have err: "0 < unat (nativeWidth g) \<and> unat (nativeWidth g) < 2 ^ 24
                \<and> 0 < unat w \<and> unat w < 2 ^ 24 \<longrightarrow>
             \<bar>f32_value ratio - real (unat (nativeWidth g)) / real (unat w)\<bar>
                  \<le> real (unat (nativeWidth g)) / real (unat w) / 2 ^ 24"
    unfolding ratio_def using ratio_error [of "nativeWidth g" w] by blast
  have ex1: "w = 7680 \<and> nativeWidth g = 3840 \<longrightarrow>
               ratio = 0x3F000000 \<and> read_u32 mem' (eax ctx) = 0x39088889
               \<and> read_u32 mem' (eax ctx + 0x30) = 0xBF000000"
    unfolding f ratio_def by (auto simp: ratio_7680 fieldA_7680 fieldB_7680)
  have ex2: "w = 3440 \<and> nativeWidth g = 2560 \<longrightarrow>
               ratio = 0x3F3E82FA \<and> read_u32 mem' (eax ctx) = 0x39E2D77D
               \<and> read_u32 mem' (eax ctx + 0x30) = 0xBF3E82FA"
    unfolding f ratio_def by (auto simp: ratio_3440 fieldA_3440 fieldB_3440)
  show ?thesis
    unfolding Let_def w_def [symmetric] ratio_def [symmetric] mem'_def [symmetric]
    using f dec val nan prod frame err ex1 ex2 by blast
qed

theorem hud_formula_witness:
  "(let mem = sample_mem 0x1000 0xBF800000 0x3F800000;
        ctx = sample_ctx 0x1000;
        mem' = hudElementsFix_callback (sample_globals 7680 2160 3840 False) ctx mem
    in read_u32 mem (eax ctx + 0x30) AND 0xBF000000 = 0xBF000000
     \<and> read_u32 mem (eax ctx + 0x3C) AND 0x3F000000 = 0x3F000000
     \<and> read_u32 mem' (eax ctx) = 0x39088889
     \<and> read_u32 mem' (eax ctx + 0x30) = 0xBF000000
     \<and> f32_value (read_u32 mem' (eax ctx + 0x30)) = - (1 / 2)
     \<and> f32_mul (f32_div (f32_of_u32 3840) (f32_of_u32 7680)) lit_minus_1f = 0xBF000000
     \<and> mem' 0x1034 = mem 0x1034)"
proof -
  let ?mem = "sample_mem 0x1000 0xBF800000 0x3F800000"
  let ?ctx = "sample_ctx 0x1000"
  let ?g = "sample_globals 7680 2160 3840 False"
  have s0: "read_u32 ?mem (eax ?ctx + 0x30) = 0xBF800000"
    and s1: "read_u32 ?mem (eax ?ctx + 0x3C) = 0x3F800000"
    by (simp_all only: eax_sample_ctx sample_mem_fields)
  have g0: "read_u32 ?mem (eax ?ctx + 0x30) AND 0xBF000000 = 0xBF000000"
    unfolding s0 by simp
  have g1: "read_u32 ?mem (eax ?ctx + 0x3C) AND 0x3F000000 = 0x3F000000"
    unfolding s1 by simp
  have e: "eax ?ctx = 0x1000"
    by (simp only: eax_sample_ctx)
  let ?m' = "hudElementsFix_callback ?g ?ctx ?mem"
  note h = hud_formula [OF g0 g1, of ?g, unfolded Let_def sample_globals_fields]
  from h have a: "read_u32 ?m' (eax ?ctx) = 0x39088889"
    and b: "read_u32 ?m' (eax ?ctx + 0x30) = 0xBF000000"
    by blast+
  from h have "\<not> ((7680 :: u32) = 0 \<and> (3840 :: u32) = 0) \<longrightarrow>
      read_u32 ?m' (eax ?ctx + 0x30)
        = f32_mul (f32_div (f32_of_u32 3840) (f32_of_u32 7680)) lit_minus_1f"
    by blast
  then have p: "f32_mul (f32_div (f32_of_u32 3840) (f32_of_u32 7680)) lit_minus_1f = 0xBF000000"
    unfolding b by simp
  from h have "\<forall>b. b \<notin> {eax ?ctx, eax ?ctx + 1, eax ?ctx + 2, eax ?ctx + 3,
                        eax ?ctx + 0x30, eax ?ctx + 0x31, eax ?ctx + 0x32, eax ?ctx + 0x33}
                  \<longrightarrow> ?m' b = ?mem b"
    by blast
  then have c: "?m' 0x1034 = ?mem 0x1034"
    unfolding e by simp
  have v: "f32_value 0xBF000000 = - (1 / 2)"
    by (simp add: f32_value_def f32_decode_def)
  show ?thesis
    unfolding Let_def using g0 g1 a b c p by (simp add: v)
qed

section \<open>The resolution override\<close>

text \<open>
  C3. When the movie flag is false the resolution callback stores the configured width,
  converted to \<open>f32\<close>, in lane 0 of \<open>xmm0\<close> and changes nothing else: the stored single
  stands for the width itself when the width is below \<open>2^24\<close>, and for any width it is
  within a relative \<open>2^(-24)\<close> of it. When the flag is true the callback leaves the
  register context, and memory, as they were.
\<close>

theorem resolutionFix_callback_gated:
  "(isMoviePlaying g = False \<longrightarrow>
      run_callback ResolutionCallback g (ctx, mem) =
        (ctx\<lparr>xmm0 := (xmm0 ctx)\<lparr>f32_0 := f32_of_u32 (width (resolution (yml g)))\<rparr>\<rparr>, mem)
      \<and> (unat (width (resolution (yml g))) < 2 ^ 24 \<longrightarrow>
            f32_value (f32_0 (xmm0 (fst (run_callback ResolutionCallback g (ctx, mem)))))
              = real (unat (width (resolution (yml g)))))
      \<and> \<bar>f32_value (f32_0 (xmm0 (fst (run_callback ResolutionCallback g (ctx, mem)))))
            - real (unat (width (resolution (yml g))))\<bar>
           \<le> real (unat (width (resolution (yml g)))) / 2 ^ 24)
   \<and> (isMoviePlaying g = True \<longrightarrow> run_callback ResolutionCallback g (ctx, mem) = (ctx, mem))"
proof (intro conjI impI)
  assume n: "isMoviePlaying g = False"
  then have r: "run_callback ResolutionCallback g (ctx, mem) =
        (ctx\<lparr>xmm0 := (xmm0 ctx)\<lparr>f32_0 := f32_of_u32 (width (resolution (yml g)))\<rparr>\<rparr>, mem)"
    by (simp add: resolutionFix_callback_def)
  then show "run_callback ResolutionCallback g (ctx, mem) =
        (ctx\<lparr>xmm0 := (xmm0 ctx)\<lparr>f32_0 := f32_of_u32 (width (resolution (yml g)))\<rparr>\<rparr>, mem)" .
  have l: "f32_0 (xmm0 (fst (run_callback ResolutionCallback g (ctx, mem))))
             = f32_of_u32 (width (resolution (yml g)))"
    unfolding r by simp
  show "\<bar>f32_value (f32_0 (xmm0 (fst (run_callback ResolutionCallback g (ctx, mem)))))
            - real (unat (width (resolution (yml g))))\<bar>
           \<le> real (unat (width (resolution (yml g)))) / 2 ^ 24"
    unfolding l by (rule f32_of_u32_error)
  assume "unat (width (resolution (yml g))) < 2 ^ 24"
  then show "f32_value (f32_0 (xmm0 (fst (run_callback ResolutionCallback g (ctx, mem)))))
              = real (unat (width (resolution (yml g))))"
    unfolding l by (rule f32_of_u32_value)
next
  assume "isMoviePlaying g = True"
  then show "run_callback ResolutionCallback g (ctx, mem) = (ctx, mem)"
    by (simp add: resolutionFix_callback_def)
qed

theorem resolutionFix_callback_gated_witness:
  "isMoviePlaying (sample_globals 3440 1440 2560 False) = False
   \<and> unat (3440 :: u32) < 2 ^ 24
   \<and> run_callback ResolutionCallback (sample_globals 3440 1440 2560 False)
        (sample_ctx 0, \<lambda>a. 0)
      = ((sample_ctx 0)\<lparr>xmm0 := (xmm0 (sample_ctx 0))\<lparr>f32_0 := 0x45570000\<rparr>\<rparr>, \<lambda>a. 0)
   \<and> f32_value (f32_0 (xmm0 (fst (run_callback ResolutionCallback
          (sample_globals 3440 1440 2560 False) (sample_ctx 0, \<lambda>a. 0))))) = 3440
   \<and> isMoviePlaying (sample_globals 1920 1080 1920 False) = False
   \<and> unat (1920 :: u32) < 2 ^ 24
   \<and> run_callback ResolutionCallback (sample_globals 1920 1080 1920 False)
        (sample_ctx 0, \<lambda>a. 0)
      = ((sample_ctx 0)\<lparr>xmm0 := (xmm0 (sample_ctx 0))\<lparr>f32_0 := 0x44F00000\<rparr>\<rparr>, \<lambda>a. 0)
   \<and> f32_value (f32_0 (xmm0 (fst (run_callback ResolutionCallback
          (sample_globals 1920 1080 1920 False) (sample_ctx 0, \<lambda>a. 0))))) = 1920
   \<and> isMoviePlaying (sample_globals 3440 1440 2560 True) = True
   \<and> run_callback ResolutionCallback (sample_globals 3440 1440 2560 True)
        (sample_ctx 0, \<lambda>a. 0)
      = (sample_ctx 0, \<lambda>a. 0)"
proof -
  let ?g = "sample_globals 3440 1440 2560 False"
  let ?r = "run_callback ResolutionCallback ?g (sample_ctx 0, \<lambda>a. 0)"
  let ?g' = "sample_globals 1920 1080 1920 False"
  let ?r' = "run_callback ResolutionCallback ?g' (sample_ctx 0, \<lambda>a. 0)"
  note t = resolutionFix_callback_gated [of ?g "sample_ctx 0" "\<lambda>a. 0",
      unfolded sample_globals_fields]
  note t' = resolutionFix_callback_gated [of ?g' "sample_ctx 0" "\<lambda>a. 0",
      unfolded sample_globals_fields]
  have u: "unat (3440 :: u32) < 2 ^ 24" and u': "unat (1920 :: u32) < 2 ^ 24"
    by simp_all
  from t have a: "?r = ((sample_ctx 0)\<lparr>xmm0 := (xmm0 (sample_ctx 0))\<lparr>f32_0 := f32_of_u32 3440\<rparr>\<rparr>, \<lambda>a. 0)"
    by blast
  from t u have "f32_value (f32_0 (xmm0 (fst ?r))) = real (unat (3440 :: u32))"
    by blast
  then have b: "f32_value (f32_0 (xmm0 (fst ?r))) = 3440"
    by simp
  from t' have a': "?r' = ((sample_ctx 0)\<lparr>xmm0 := (xmm0 (sample_ctx 0))\<lparr>f32_0 := f32_of_u32 1920\<rparr>\<rparr>, \<lambda>a. 0)"
    by blast
  from t' u' have "f32_value (f32_0 (xmm0 (fst ?r'))) = real (unat (1920 :: u32))"
    by blast
  then have b': "f32_value (f32_0 (xmm0 (fst ?r'))) = 1920"
    by simp
  have c: "run_callback ResolutionCallback (sample_globals 3440 1440 2560 True)
        (sample_ctx 0, \<lambda>a. 0) = (sample_ctx 0, \<lambda>a. 0)"
    using resolutionFix_callback_gated [of "sample_globals 3440 1440 2560 True" "sample_ctx 0" "\<lambda>a. 0"]
    by (simp add: sample_globals_fields)
  have r: "?r = ((sample_ctx 0)\<lparr>xmm0 := (xmm0 (sample_ctx 0))\<lparr>f32_0 := 0x45570000\<rparr>\<rparr>, \<lambda>a. 0)"
    unfolding a f32_of_u32_3440 ..
  have r': "?r' = ((sample_ctx 0)\<lparr>xmm0 := (xmm0 (sample_ctx 0))\<lparr>f32_0 := 0x44F00000\<rparr>\<rparr>, \<lambda>a. 0)"
    unfolding a' f32_of_u32_1920 ..
  have m: "isMoviePlaying ?g = False" "isMoviePlaying ?g' = False"
    "isMoviePlaying (sample_globals 3440 1440 2560 True) = True"
    by (simp_all only: sample_globals_fields)
  show ?thesis
    using m u u' r b r' b' c by blast
qed

section \<open>The ReadFile intercept: lemmas and claims\<close>







lemma sample_os_resolve:
  "GetFinalPathNameByHandleA (sample_os k) w 1 MAX_PATH FILE_NAME_NORMALIZED
     = (of_nat (length movie_path), movie_path)"
  "GetFinalPathNameByHandleA (sample_os k) w 2 MAX_PATH FILE_NAME_NORMALIZED
     = (of_nat (length script_path), script_path)"
  "GetFinalPathNameByHandleA (sample_os k) w 3 MAX_PATH FILE_NAME_NORMALIZED = (0, [])"
  by (simp_all add: sample_os_def)





text \<open>
  C6. The intercept passes its five parameters, as it received them, to the original
  \<open>ReadFile\<close>, on the state of the operating system it was called in, and returns the
  result of that call; of the globals it changes nothing but the movie flag.
\<close>

theorem readFile_forwarded:
  "(let k = kernelBaseDllReadFileHook os hFile lpBuffer n lpRead lpOverlapped (g, w)
    in fst k = fst (ReadFile os hFile lpBuffer n lpRead lpOverlapped w)
     \<and> snd (snd k) = snd (ReadFile os hFile lpBuffer n lpRead lpOverlapped w)
     \<and> (fst (snd k))\<lparr>isMoviePlaying := isMoviePlaying g\<rparr> = g)"
  by (simp add: kernelBaseDllReadFileHook_def Let_def split: prod.splits)

text \<open>
  C10. When \<open>GetFinalPathNameByHandleA\<close> returns zero the intercept leaves every global,
  the movie flag among them, as it was (it does not clear the flag), and still forwards
  the call to the original \<open>ReadFile\<close>.
\<close>

theorem readFile_unresolved_keeps_flag:
  assumes "fst (GetFinalPathNameByHandleA os w hFile MAX_PATH FILE_NAME_NORMALIZED) = 0"
  shows "kernelBaseDllReadFileHook os hFile lpBuffer n lpRead lpOverlapped (g, w)
           = (fst (ReadFile os hFile lpBuffer n lpRead lpOverlapped w), g,
              snd (ReadFile os hFile lpBuffer n lpRead lpOverlapped w))"
  using assms
  by (cases "GetFinalPathNameByHandleA os w hFile MAX_PATH FILE_NAME_NORMALIZED")
     (simp add: kernelBaseDllReadFileHook_def Let_def split: prod.splits)

theorem readFile_unresolved_keeps_flag_witness:
  "(let os = sample_os 0x76000000;
        g = sample_globals 3440 1440 2560 True;
        k = kernelBaseDllReadFileHook os 3 0x2000 4096 0x3000 0 (g, 7)
    in fst (GetFinalPathNameByHandleA os 7 3 MAX_PATH FILE_NAME_NORMALIZED) = 0
     \<and> isMoviePlaying g = True \<and> isMoviePlaying (fst (snd k)) = True
     \<and> fst k = 1 \<and> snd (snd k) = 7 + 4096)"
proof -
  let ?os = "sample_os 0x76000000"
  have z: "fst (GetFinalPathNameByHandleA ?os 7 3 MAX_PATH FILE_NAME_NORMALIZED) = 0"
    by (simp add: sample_os_resolve)
  have r: "ReadFile ?os 3 0x2000 4096 0x3000 0 7 = (1, 7 + 4096)"
    by (simp add: sample_os_def)
  show ?thesis
    unfolding Let_def
    using z readFile_unresolved_keeps_flag [where os = ?os and w = "7::nat" and hFile = 3
              and lpBuffer = "0x2000" and n = 4096 and lpRead = "0x3000" and lpOverlapped = 0
              and g = "sample_globals 3440 1440 2560 True", OF z]
    by (simp add: r sample_globals_fields)
qed

section \<open>Initialisation: lemmas and claims\<close>

lemma readYml_frame:
  assumes "readYml os g = Some g1"
  shows "masterEnable (yml g1) = cfg_masterEnable (config g)"
    and "enable (constrainHud (feature (yml g1))) = cfg_constrainHud (config g)"
    and "readFileHook g1 = readFileHook g"
    and "midHooks g1 = midHooks g"
    and "config g1 = config g"
    and "module g1 = module g"
    and "isMoviePlaying g1 = isMoviePlaying g"
  using assms
  by (auto simp: readYml_def Let_def LOG_def split: option.splits prod.splits if_splits)

lemma readYml_defined_cong:
  assumes "config g' = config g"
  shows "(readYml os g' = None) = (readYml os g = None)"
  using assms
  by (auto simp: readYml_def Let_def split: option.splits prod.splits if_splits)

lemma logInit_frame:
  "config (logInit os g) = config g" "readFileHook (logInit os g) = readFileHook g"
  "midHooks (logInit os g) = midHooks g" "module (logInit os g) = module g"
  by (simp_all add: logInit_def)

lemma LOG_frame:
  "config (LOG f a g) = config g" "readFileHook (LOG f a g) = readFileHook g"
  "midHooks (LOG f a g) = midHooks g" "module (LOG f a g) = module g" "yml (LOG f a g) = yml g"
  by (simp_all add: LOG_def)

lemma injectHook_disabled:
  "injectHook os False m hook cb g = LOG ''Fix disabled'' [] g"
  by (simp add: injectHook_def)

lemma fixes_disabled:
  assumes "masterEnable (yml g) = False"
  shows "moviesFix os g = g"
    and "aspectRatioFix (injectHook os) g = LOG ''Fix disabled'' [] g"
    and "resolutionFix (injectHook os) g = LOG ''Fix disabled'' [] g"
    and "hudElementsFix (injectHook os) g = LOG ''Fix disabled'' [] g"
  using assms
  by (simp_all add: moviesFix_def aspectRatioFix_def resolutionFix_def hudElementsFix_def
        injectHook_disabled Let_def)

lemma Main_disabled:
  assumes off: "cfg_masterEnable (config g) = False"
      and run: "Main os (injectHook os) g = Some (r, g1)"
  shows "r = 1 \<and> readFileHook g1 = readFileHook g \<and> midHooks g1 = midHooks g
           \<and> config g1 = config g"
proof -
  from run obtain g0 where y: "readYml os (logInit os g) = Some g0"
    and g1: "g1 = hudElementsFix (injectHook os) (resolutionFix (injectHook os)
                    (aspectRatioFix (injectHook os) (moviesFix os g0)))" and r: "r = 1"
    by (auto simp: Main_def split: option.splits)
  from readYml_frame [OF y] off have me: "masterEnable (yml g0) = False"
    and fr: "readFileHook g0 = readFileHook g" "midHooks g0 = midHooks g" "config g0 = config g"
    by (simp_all add: logInit_frame)
  have "g1 = LOG ''Fix disabled'' [] (LOG ''Fix disabled'' [] (LOG ''Fix disabled'' [] g0))"
    unfolding g1 using me by (simp add: fixes_disabled LOG_frame)
  then show ?thesis using fr r by (simp add: LOG_frame)
qed

lemma derived_3440_1440:
  "f32_to_u32 (f32_mul (f32_div lit_16f lit_9f) (f32_of_u32 1440)) = Some 2560"
  "f32_to_u32 (f32_div (f32_of_u32 880) lit_2f) = Some 440"
  "f32_div (f32_of_u32 3440) (f32_of_u32 2560) = 0x3FAC0000"
  by (simp_all add: f32_eval)

lemma readYml_3440_1440:
  assumes "config g = sample_config m 3440 1440"
  shows "\<exists>g1. readYml os g = Some g1 \<and> nativeWidth g1 = 2560 \<and> nativeOffset g1 = 440
            \<and> widthScalingFactor g1 = 0x3FAC0000"
  using assms
  by (simp add: readYml_def sample_config_def derived_3440_1440 LOG_def Let_def)

lemma initial_globals_fields:
  "config (initial_globals m c) = c" "module (initial_globals m c) = m"
  "readFileHook (initial_globals m c) = None" "midHooks (initial_globals m c) = []"
  by (simp_all add: initial_globals_def)

text \<open>
  C7. With \<open>masterEnable\<close> false, a run of \<open>Main\<close> installs nothing: the \<open>ReadFile\<close> hook
  and the list of mid-function hooks are as before the run (none, when none was installed
  before); and \<open>Main\<close>, run again from the state it left, returns and again installs
  nothing.
\<close>

theorem master_disabled_no_hooks:
  assumes off: "cfg_masterEnable (config g) = False"
      and run: "Main os (injectHook os) g = Some (r, g1)"
  shows "readFileHook g1 = readFileHook g \<and> midHooks g1 = midHooks g
       \<and> (\<exists>g2. Main os (injectHook os) g1 = Some (1, g2)
              \<and> readFileHook g2 = readFileHook g \<and> midHooks g2 = midHooks g)"
proof -
  from Main_disabled [OF off run]
  have a: "readFileHook g1 = readFileHook g" "midHooks g1 = midHooks g" "config g1 = config g"
    by auto
  from run have "readYml os (logInit os g) \<noteq> None"
    by (auto simp: Main_def split: option.splits)
  moreover have "config (logInit os g1) = config (logInit os g)"
    using a(3) by (simp add: logInit_frame)
  ultimately have "readYml os (logInit os g1) \<noteq> None"
    using readYml_defined_cong [of "logInit os g1" "logInit os g" os] by simp
  then obtain r2 g2 where run2: "Main os (injectHook os) g1 = Some (r2, g2)"
    by (auto simp: Main_def split: option.splits)
  from off a(3) have off1: "cfg_masterEnable (config g1) = False" by simp
  from Main_disabled [OF off1 run2] a run2 show ?thesis by auto
qed

theorem master_disabled_no_hooks_witness:
  "(let os = sample_os 0x76000000;
        g = initial_globals sample_module (sample_config False 3440 1440)
    in cfg_masterEnable (config g) = False
     \<and> (\<exists>r g1. Main os (injectHook os) g = Some (r, g1)
            \<and> readFileHook g1 = None \<and> midHooks g1 = []
            \<and> (\<exists>g2. Main os (injectHook os) g1 = Some (1, g2)
                   \<and> readFileHook g2 = None \<and> midHooks g2 = [])))"
proof -
  let ?os = "sample_os 0x76000000"
  let ?g = "initial_globals sample_module (sample_config False 3440 1440)"
  have off: "cfg_masterEnable (config ?g) = False"
    by (simp add: initial_globals_fields sample_config_def)
  have "config (logInit ?os ?g) = sample_config False 3440 1440"
    by (simp add: logInit_frame initial_globals_fields)
  from readYml_3440_1440 [OF this] obtain g0 where "readYml ?os (logInit ?os ?g) = Some g0"
    by blast
  then obtain r g1 where run: "Main ?os (injectHook ?os) ?g = Some (r, g1)"
    by (simp add: Main_def)
  from master_disabled_no_hooks [OF off run] off run show ?thesis
    unfolding Let_def by (simp add: initial_globals_fields)
qed

text \<open>
  C8. When \<open>moviesFix\<close> cannot get the handle of \<open>KernelBase.dll\<close> or the address of
  \<open>ReadFile\<close>, it writes one log line and changes nothing else, so no \<open>ReadFile\<close> hook is
  placed; \<open>Main\<close> does not stop there: it returns, after the aspect-ratio, resolution and
  HUD fixes have run on the state that \<open>moviesFix\<close> left. This holds whatever
  \<open>Utils::injectHook\<close> does.
\<close>

theorem movie_failure_contained:
  assumes yml: "readYml os (logInit os g) = Some g1"
      and on: "cfg_masterEnable (config g) = True"
      and fail: "GetModuleHandleA os ''KernelBase.dll'' = 0
                 \<or> GetProcAddress os (GetModuleHandleA os ''KernelBase.dll'') ''ReadFile'' = 0"
  shows "(\<exists>line. moviesFix os g1 = g1\<lparr>logLines := logLines g1 @ [line]\<rparr>)
       \<and> Main os inject g =
           Some (1, hudElementsFix inject (resolutionFix inject
                      (aspectRatioFix inject (moviesFix os g1))))"
proof -
  from readYml_frame(1) [OF yml] on have me: "masterEnable (yml g1) = True"
    by (simp add: logInit_frame)
  have "\<exists>line. moviesFix os g1 = g1\<lparr>logLines := logLines g1 @ [line]\<rparr>"
    using fail me by (auto simp: moviesFix_def Let_def LOG_def)
  then show ?thesis using yml by (simp add: Main_def)
qed

lemma sample_scans:
  "scan sample_image
     \<lparr>signature = [B 0xF3, B 0x0F, B 0x11, B 0x05, wildcard, wildcard, wildcard, wildcard,
                    B 0xE8, wildcard, wildcard, wildcard, wildcard, B 0x89, B 0xEC],
      offset = 0, matchLength = None\<rparr> = Some 0"
  "scan sample_image
     \<lparr>signature = [B 0x76, wildcard,
                    B 0xF3, B 0x0F, B 0x59, B 0x05, wildcard, wildcard, wildcard, wildcard,
                    B 0xF3, B 0x0F, B 0x5E, B 0x05, wildcard, wildcard, wildcard, wildcard,
                    B 0xE8, wildcard, wildcard, wildcard, wildcard],
      offset = 18, matchLength = None\<rparr> = Some 33"
  "scan sample_image
     \<lparr>signature = [B 0xF3, B 0x0F, B 0x6F, B 0x00, B 0xF3, B 0x0F, B 0x7F, B 0x41, B 0x0C,
                    B 0xF3, B 0x0F, B 0x6F, B 0x40, B 0x10],
      offset = 0, matchLength = None\<rparr> = Some 38"
  by (simp_all add: scan_def match_length_def matches_window_def sample_image_def)

lemma sample_fixes:
  assumes "masterEnable (yml g) = True" and "enable (constrainHud (feature (yml g))) = True"
      and "module g = sample_module"
  shows "midHooks (hudElementsFix (injectHook (sample_os k)) (resolutionFix (injectHook (sample_os k))
            (aspectRatioFix (injectHook (sample_os k)) g)))
          = midHooks g @ [(0x400000, AspectRatioCallback), (0x400021, ResolutionCallback),
                          (0x400026, HudElementsCallback)]"
    and "readFileHook (hudElementsFix (injectHook (sample_os k)) (resolutionFix (injectHook (sample_os k))
            (aspectRatioFix (injectHook (sample_os k)) g))) = readFileHook g"
proof -
  have os: "\<And>m. moduleBytes (sample_os k) m = sample_image"
    "\<And>a. create_mid (sample_os k) a = True"
    by (simp_all add: sample_os_def)
  have a: "aspectRatioFix (injectHook (sample_os k)) g
             = LOG ''Hooked @ {:x}'' [LU32 0x400000]
                 (g\<lparr>midHooks := midHooks g @ [(0x400000, AspectRatioCallback)]\<rparr>)"
    using assms
    by (simp add: aspectRatioFix_def injectHook_def os sample_scans sample_module_def)
  have b: "\<And>g'. masterEnable (yml g') = True \<Longrightarrow> module g' = sample_module \<Longrightarrow>
             resolutionFix (injectHook (sample_os k)) g'
             = LOG ''Hooked @ {:x}'' [LU32 0x400021]
                 (g'\<lparr>midHooks := midHooks g' @ [(0x400021, ResolutionCallback)]\<rparr>)"
    by (simp add: resolutionFix_def injectHook_def os sample_scans sample_module_def)
  have c: "\<And>g'. masterEnable (yml g') = True \<Longrightarrow> enable (constrainHud (feature (yml g'))) = True
             \<Longrightarrow> module g' = sample_module \<Longrightarrow>
             hudElementsFix (injectHook (sample_os k)) g'
             = LOG ''Hooked @ {:x}'' [LU32 0x400026]
                 (g'\<lparr>midHooks := midHooks g' @ [(0x400026, HudElementsCallback)]\<rparr>)"
    by (simp add: hudElementsFix_def injectHook_def os sample_scans sample_module_def)
  show "midHooks (hudElementsFix (injectHook (sample_os k)) (resolutionFix (injectHook (sample_os k))
            (aspectRatioFix (injectHook (sample_os k)) g)))
          = midHooks g @ [(0x400000, AspectRatioCallback), (0x400021, ResolutionCallback),
                          (0x400026, HudElementsCallback)]"
    using assms by (simp add: a b c LOG_def)
  show "readFileHook (hudElementsFix (injectHook (sample_os k)) (resolutionFix (injectHook (sample_os k))
            (aspectRatioFix (injectHook (sample_os k)) g))) = readFileHook g"
    using assms by (simp add: a b c LOG_def)
qed

theorem movie_failure_contained_witness:
  "(let os = sample_os 0;
        g = initial_globals sample_module (sample_config True 3440 1440)
    in cfg_masterEnable (config g) = True
     \<and> GetModuleHandleA os ''KernelBase.dll'' = 0
     \<and> (\<exists>g1. readYml os (logInit os g) = Some g1
            \<and> (\<exists>line. moviesFix os g1 = g1\<lparr>logLines := logLines g1 @ [line]\<rparr>)
            \<and> (\<exists>g2. Main os (injectHook os) g = Some (1, g2)
                   \<and> readFileHook g2 = None
                   \<and> midHooks g2 = [(0x400000, AspectRatioCallback),
                                     (0x400021, ResolutionCallback),
                                     (0x400026, HudElementsCallback)])))"
proof -
  let ?os = "sample_os 0"
  let ?g = "initial_globals sample_module (sample_config True 3440 1440)"
  have on: "cfg_masterEnable (config ?g) = True"
    by (simp add: initial_globals_fields sample_config_def)
  have h: "GetModuleHandleA ?os ''KernelBase.dll'' = 0"
    by (simp add: sample_os_def)
  then have fail: "GetModuleHandleA ?os ''KernelBase.dll'' = 0
        \<or> GetProcAddress ?os (GetModuleHandleA ?os ''KernelBase.dll'') ''ReadFile'' = 0"
    by (rule disjI1)
  have "config (logInit ?os ?g) = sample_config True 3440 1440"
    by (simp add: logInit_frame initial_globals_fields)
  from readYml_3440_1440 [OF this] obtain g1 where y: "readYml ?os (logInit ?os ?g) = Some g1"
    by blast
  note fr = readYml_frame [OF y]
  from movie_failure_contained [OF y on fail, of "injectHook ?os"]
  obtain line where m: "moviesFix ?os g1 = g1\<lparr>logLines := logLines g1 @ [line]\<rparr>"
    and run: "Main ?os (injectHook ?os) ?g =
           Some (1, hudElementsFix (injectHook ?os) (resolutionFix (injectHook ?os)
                      (aspectRatioFix (injectHook ?os) (moviesFix ?os g1))))"
    by blast
  have pre: "masterEnable (yml (moviesFix ?os g1)) = True"
    "enable (constrainHud (feature (yml (moviesFix ?os g1)))) = True"
    "module (moviesFix ?os g1) = sample_module"
    "midHooks (moviesFix ?os g1) = []" "readFileHook (moviesFix ?os g1) = None"
    unfolding m using fr
    by (simp_all add: logInit_frame initial_globals_fields sample_config_def)
  have ex: "\<exists>line. moviesFix ?os g1 = g1\<lparr>logLines := logLines g1 @ [line]\<rparr>"
    using m by blast
  have mh: "midHooks (hudElementsFix (injectHook ?os) (resolutionFix (injectHook ?os)
                      (aspectRatioFix (injectHook ?os) (moviesFix ?os g1))))
              = [(0x400000, AspectRatioCallback), (0x400021, ResolutionCallback),
                 (0x400026, HudElementsCallback)]"
    and rf: "readFileHook (hudElementsFix (injectHook ?os) (resolutionFix (injectHook ?os)
                      (aspectRatioFix (injectHook ?os) (moviesFix ?os g1)))) = None"
    using sample_fixes [OF pre(1,2,3), of 0] pre(4,5) by simp_all
  show ?thesis
    unfolding Let_def using on h y ex run mh rf by blast
qed

section \<open>The pattern scanner\<close>









section \<open>The derived values of readYml\<close>

lemma f32_value_finite:
  "f32_decode x = Finite False m t \<Longrightarrow> f32_value x = real m * 2 powi t"
  by (simp add: f32_value_def)

lemma f32_value_3440_2560: "f32_value 0x3FAC0000 = 3440 / 2560"
  by (simp add: f32_value_def f32_decode_def)

lemma readYml_resolved:
  assumes res: "(if cfg_width (config g) = 0 \<or> cfg_height (config g) = 0
                 then (word_of_int (fst (getDesktopDimensions os)),
                       word_of_int (snd (getDesktopDimensions os)))
                 else (cfg_width (config g), cfg_height (config g))) = (w, h)"
      and nw: "f32_to_u32 (f32_mul (f32_div lit_16f lit_9f) (f32_of_u32 h)) = Some nw"
      and noff: "f32_to_u32 (f32_div (f32_of_u32 (w - nw)) lit_2f) = Some noff"
  shows "\<exists>g1. readYml os g = Some g1
            \<and> width (resolution (yml g1)) = w \<and> height (resolution (yml g1)) = h
            \<and> nativeWidth g1 = nw \<and> nativeOffset g1 = noff
            \<and> widthScalingFactor g1 = f32_div (f32_of_u32 w) (f32_of_u32 nw)"
  by (simp add: readYml_def Let_def res nw noff LOG_def)

text \<open>
  C5, as the code has it. The claim states \<open>nativeWidth = round(16/9 * height)\<close> and
  \<open>nativeOffset = (width - nativeWidth) / 2\<close> for every configuration. The code converts
  the single-precision product and quotient to \<open>u32\<close>, which truncates, and subtracts in
  \<open>u32\<close>, which wraps around: for 1680 by 1050 the native width is 1866, where
  \<open>16/9 * 1050\<close> rounds to 1867, and the native offset is 2147483520, the width being
  smaller than the native width.
\<close>

theorem derived_values_counterexample:
  "map_option nativeWidth
     (readYml (sample_os 0) (initial_globals sample_module (sample_config True 1680 1050)))
     = Some 1866
   \<and> (1866 :: int) \<noteq> round (16 / 9 * (1050 :: real))
   \<and> map_option nativeOffset
     (readYml (sample_os 0) (initial_globals sample_module (sample_config True 1680 1050)))
     = Some 2147483520
   \<and> (2147483520 :: int) \<noteq> (1680 - 1866) div 2"
proof -
  let ?g = "initial_globals sample_module (sample_config True 1680 1050)"
  have res: "(if cfg_width (config ?g) = 0 \<or> cfg_height (config ?g) = 0
                 then (word_of_int (fst (getDesktopDimensions (sample_os 0))),
                       word_of_int (snd (getDesktopDimensions (sample_os 0))))
                 else (cfg_width (config ?g), cfg_height (config ?g))) = (1680, 1050)"
    by (simp add: initial_globals_fields sample_config_def)
  have nw: "f32_to_u32 (f32_mul (f32_div lit_16f lit_9f) (f32_of_u32 1050)) = Some 1866"
    using nativeWidth_truncates [of 1050] by simp
  have "f32_of_u32 4294967110 = 0x4F7FFFFF"
    by (simp add: f32_eval)
  moreover have "f32_div 0x4F7FFFFF lit_2f = 0x4EFFFFFF"
    by (simp add: f32_eval)
  moreover have "f32_to_u32 0x4EFFFFFF = Some 2147483520"
    by (simp add: f32_eval)
  moreover have "(1680 :: u32) - 1866 = 4294967110"
    by simp
  ultimately have noff: "f32_to_u32 (f32_div (f32_of_u32 (1680 - 1866)) lit_2f) = Some 2147483520"
    by (simp only:)
  from readYml_resolved [OF res nw noff] obtain g1
    where "readYml (sample_os 0) ?g = Some g1" "nativeWidth g1 = 1866"
      "nativeOffset g1 = 2147483520" by blast
  then show ?thesis by (simp add: round_def)
qed

text \<open>
  C5, amended. For a height \<open>h\<close> below \<open>2^19\<close> and a width \<open>w\<close> of at least the native width
  and below \<open>2^24\<close> (the configured values, or the desktop's when one of the configured
  is zero), \<open>readYml\<close> returns with \<open>nativeWidth = 16 * h / 9\<close> rounded down,
  \<open>nativeOffset = (w - nativeWidth) / 2\<close> rounded down, and \<open>widthScalingFactor\<close> the
  single-precision quotient of \<open>w\<close> and \<open>nativeWidth\<close>, within a relative \<open>2^(-24)\<close> of
  \<open>w / nativeWidth\<close>. For 3440 by 1440 these are 2560, 440 and exactly \<open>3440/2560\<close>.
\<close>

theorem derived_values:
  assumes res: "(if cfg_width (config g) = 0 \<or> cfg_height (config g) = 0
                 then (word_of_int (fst (getDesktopDimensions os)),
                       word_of_int (snd (getDesktopDimensions os)))
                 else (cfg_width (config g), cfg_height (config g))) = (w, h)"
      and h: "0 < unat h" "unat h < 2 ^ 19"
      and w: "16 * unat h div 9 \<le> unat w" "unat w < 2 ^ 24"
  shows "\<exists>g1. readYml os g = Some g1
            \<and> width (resolution (yml g1)) = w \<and> height (resolution (yml g1)) = h
            \<and> unat (nativeWidth g1) = 16 * unat h div 9
            \<and> unat (nativeOffset g1) = (unat w - unat (nativeWidth g1)) div 2
            \<and> widthScalingFactor g1 = f32_div (f32_of_u32 w) (f32_of_u32 (nativeWidth g1))
            \<and> \<bar>f32_value (widthScalingFactor g1)
                  - real (unat w) / real (unat (nativeWidth g1))\<bar>
                 \<le> real (unat w) / real (unat (nativeWidth g1)) / 2 ^ 24
            \<and> (w = 3440 \<and> h = 1440 \<longrightarrow>
                  nativeWidth g1 = 2560 \<and> nativeOffset g1 = 440
                  \<and> widthScalingFactor g1 = 0x3FAC0000
                  \<and> f32_value (widthScalingFactor g1) = 3440 / 2560)"
proof -
  define n0 where "n0 = 16 * unat h div 9"
  define nw :: u32 where "nw = of_nat n0"
  define noff :: u32 where "noff = of_nat (unat (w - nw) div 2)"
  have n0: "0 < n0" "n0 < 2 ^ 24"
    using h w unfolding n0_def by simp_all
  have unw: "unat nw = n0"
    unfolding nw_def using n0(2) by (intro of_nat_inverse [OF refl]) simp
  have le: "nw \<le> w"
    using w(1) unw by (simp add: word_le_nat_alt n0_def)
  have ud: "unat (w - nw) = unat w - n0"
    using le unw by (simp add: unat_sub)
  have dlt: "unat (w - nw) < 2 ^ 24"
    using ud w(2) by simp
  have unoff: "unat noff = (unat w - n0) div 2"
  proof -
    have "unat (w - nw) div 2 < 2 ^ 32" using dlt by simp
    then have "unat noff = unat (w - nw) div 2"
      unfolding noff_def by (intro of_nat_inverse [OF refl]) simp
    then show ?thesis by (simp add: ud)
  qed
  have a: "f32_to_u32 (f32_mul (f32_div lit_16f lit_9f) (f32_of_u32 h)) = Some nw"
    using nativeWidth_truncates [OF h] by (simp add: nw_def n0_def)
  have b: "f32_to_u32 (f32_div (f32_of_u32 (w - nw)) lit_2f) = Some noff"
    using nativeOffset_halves [OF dlt] by (simp add: noff_def)
  from readYml_resolved [OF res a b] obtain g1
    where g1: "readYml os g = Some g1" "width (resolution (yml g1)) = w"
      "height (resolution (yml g1)) = h" "nativeWidth g1 = nw" "nativeOffset g1 = noff"
      "widthScalingFactor g1 = f32_div (f32_of_u32 w) (f32_of_u32 nw)" by blast
  have wpos: "0 < unat w" using n0(1) w(1) by (simp add: n0_def)
  have nwpos: "0 < unat nw" "unat nw < 2 ^ 24" using n0 unw by simp_all
  from quotient_error [OF wpos w(2) nwpos] obtain m t
    where q: "f32_decode (f32_div (f32_of_u32 w) (f32_of_u32 nw)) = Finite False m t"
      "\<bar>real m * 2 powi t - real (unat w) / real (unat nw)\<bar>
         \<le> real (unat w) / real (unat nw) / 2 ^ 24" by blast
  have err: "\<bar>f32_value (widthScalingFactor g1) - real (unat w) / real (unat (nativeWidth g1))\<bar>
               \<le> real (unat w) / real (unat (nativeWidth g1)) / 2 ^ 24"
    unfolding g1(4) g1(6) f32_value_finite [OF q(1)] by (rule q(2))
  have ex: "w = 3440 \<and> h = 1440 \<longrightarrow>
              nativeWidth g1 = 2560 \<and> nativeOffset g1 = 440
              \<and> widthScalingFactor g1 = 0x3FAC0000
              \<and> f32_value (widthScalingFactor g1) = 3440 / 2560"
  proof
    assume wh: "w = 3440 \<and> h = 1440"
    then have nw2560: "nw = 2560" by (simp add: nw_def n0_def)
    have "noff = 440" using wh by (simp add: noff_def nw2560)
    moreover have "widthScalingFactor g1 = 0x3FAC0000"
      using wh by (simp add: g1(6) nw2560 derived_3440_1440(3))
    ultimately show "nativeWidth g1 = 2560 \<and> nativeOffset g1 = 440
              \<and> widthScalingFactor g1 = 0x3FAC0000
              \<and> f32_value (widthScalingFactor g1) = 3440 / 2560"
      using g1(4,5) nw2560 by (simp add: f32_value_3440_2560)
  qed
  have f1: "unat (nativeWidth g1) = 16 * unat h div 9"
    unfolding g1(4) unw n0_def ..
  have f2: "unat (nativeOffset g1) = (unat w - unat (nativeWidth g1)) div 2"
    unfolding g1(4) g1(5) unw unoff ..
  have f3: "widthScalingFactor g1 = f32_div (f32_of_u32 w) (f32_of_u32 (nativeWidth g1))"
    unfolding g1(4) by (rule g1(6))
  show ?thesis
    using g1(1,2,3) f1 f2 f3 err ex by blast
qed

theorem derived_values_witness:
  "(let os = sample_os 0; g = initial_globals sample_module (sample_config True 3440 1440)
    in (if cfg_width (config g) = 0 \<or> cfg_height (config g) = 0
        then (word_of_int (fst (getDesktopDimensions os)),
              word_of_int (snd (getDesktopDimensions os)))
        else (cfg_width (config g), cfg_height (config g))) = (3440, 1440)
     \<and> 0 < unat (1440 :: u32) \<and> unat (1440 :: u32) < 2 ^ 19
     \<and> 16 * unat (1440 :: u32) div 9 \<le> unat (3440 :: u32) \<and> unat (3440 :: u32) < 2 ^ 24
     \<and> (\<exists>g1. readYml os g = Some g1 \<and> nativeWidth g1 = 2560 \<and> nativeOffset g1 = 440
            \<and> widthScalingFactor g1 = 0x3FAC0000
            \<and> f32_value (widthScalingFactor g1) = 3440 / 2560))"
proof -
  let ?os = "sample_os 0"
  let ?g = "initial_globals sample_module (sample_config True 3440 1440)"
  have res: "(if cfg_width (config ?g) = 0 \<or> cfg_height (config ?g) = 0
                 then (word_of_int (fst (getDesktopDimensions ?os)),
                       word_of_int (snd (getDesktopDimensions ?os)))
                 else (cfg_width (config ?g), cfg_height (config ?g))) = (3440, 1440)"
    by (simp add: initial_globals_fields sample_config_def)
  have h: "0 < unat (1440 :: u32)" "unat (1440 :: u32) < 2 ^ 19"
    and w: "16 * unat (1440 :: u32) div 9 \<le> unat (3440 :: u32)" "unat (3440 :: u32) < 2 ^ 24"
    by simp_all
  from derived_values [OF res h w] obtain g1
    where "readYml ?os ?g = Some g1" "nativeWidth g1 = 2560" "nativeOffset g1 = 440"
      "widthScalingFactor g1 = 0x3FAC0000"
      "f32_value (widthScalingFactor g1) = 3440 / 2560"
    by blast
  then show ?thesis
    unfolding Let_def using res h w by blast
qed

end
